theory Spec2Isabelle
  imports Main "HOL-Library.Word" "HOL-Library.Signed_Division"
begin

unbundle bit_operations_syntax

section \<open>The console bitmap renderer of ssfn.h\<close>

text \<open>
  This theory embeds \<^verbatim>\<open>ssfn_putc\<close> of \<^verbatim>\<open>src/kernel/init/framebuffer/ssfn.h\<close>
  (lines 258-326), the only function of the file.

  Conventions of the embedding.
  \<^item> Memory is a flat, byte-addressed space. The font is read at byte offsets from
    \<^verbatim>\<open>ssfn_src\<close>, the frame buffer is read and written at byte offsets from
    \<^verbatim>\<open>ssfn_dst.ptr\<close>. The code checks no bound, so neither does the model: an offset
    reads or writes whatever byte is there. The two regions are taken to be disjoint.
  \<^item> C \<^verbatim>\<open>int\<close> values are HOL integers (values are taken to stay in range, signed
    overflow having no defined result in C); \<^verbatim>\<open>uint8_t\<close>, \<^verbatim>\<open>uint16_t\<close> and
    \<^verbatim>\<open>uint32_t\<close> are words, read with \<open>uint\<close> where C promotes them to \<^verbatim>\<open>int\<close>.
  \<^item> Multi-byte fields are little-endian.
  \<^item> The remainder operator \<^verbatim>\<open>%\<close> truncates towards zero (\<open>smod\<close>), and a zero
    divisor is the outcome \<open>DivByZero\<close>.
  \<^item> The macros that select the pixel type and the control-character block are defined
    by whoever includes the header; they are parameters of the model.
\<close>

subsection \<open>Data\<close>

type_synonym memory = "int \<Rightarrow> 8 word"

text \<open>A list of bytes laid out from offset 0 in otherwise zeroed memory (for concrete inputs).\<close>

definition bytes :: "8 word list \<Rightarrow> memory" where
  "bytes bs a = (if 0 \<le> a \<and> a < int (length bs) then bs ! nat a else 0)"

text \<open>\<^verbatim>\<open>SSFN_PIXEL\<close>: \<^verbatim>\<open>uint8_t\<close>, \<^verbatim>\<open>uint16_t\<close> or \<^verbatim>\<open>uint32_t\<close> (lines 260-268).\<close>

datatype pixel_fmt = PALETTE | HICOLOR | TRUECOLOR

fun sizeof_pixel :: "pixel_fmt \<Rightarrow> int" where
  "sizeof_pixel PALETTE = 1"
| "sizeof_pixel HICOLOR = 2"
| "sizeof_pixel TRUECOLOR = 4"

text \<open>The compile-time configuration: the pixel type and \<^verbatim>\<open>SSFN_CONSOLEBITMAP_CONTROL\<close>.\<close>

record config =
  cfg_pixel :: pixel_fmt
  cfg_control :: bool

text \<open>\<^verbatim>\<open>ssfn_buf_t\<close> (lines 151-160). \<open>dst_ptr\<close> is \<open>None\<close> for a null pointer, else the
  memory seen from the pointer.\<close>

record ssfn_buf =
  dst_ptr :: "memory option"
  dst_w :: int
  dst_h :: int
  dst_p :: "16 word"
  dst_x :: int
  dst_y :: int
  dst_fg :: "32 word"
  dst_bg :: "32 word"

text \<open>Error codes (lines 137-144).\<close>

definition SSFN_OK :: int where "SSFN_OK = 0"
definition SSFN_ERR_INVINP :: int where "SSFN_ERR_INVINP = - 4"
definition SSFN_ERR_NOGLYPH :: int where "SSFN_ERR_NOGLYPH = - 7"

datatype fault = DivByZero

text \<open>Fields of the packed header \<^verbatim>\<open>ssfn_font_t\<close> (lines 101-115): \<^verbatim>\<open>magic\<close> at offsets
  0-3, \<^verbatim>\<open>height\<close> at offset 11, \<^verbatim>\<open>characters_offs\<close> at offsets 16-19.\<close>

definition magic_ok :: "memory \<Rightarrow> bool" where
  "magic_ok f \<longleftrightarrow> f 0 = 0x53 \<and> f 1 = 0x46 \<and> f 2 = 0x4E \<and> f 3 = 0x32"

definition font_height :: "memory \<Rightarrow> int" where
  "font_height f = uint (f 11)"

definition characters_offs :: "memory \<Rightarrow> int" where
  "characters_offs f =
     uint (f 16) + 256 * uint (f 17) + 65536 * uint (f 18) + 16777216 * uint (f 19)"

subsection \<open>The character table scan (lines 276-281)\<close>

text \<open>One iteration of the loop, the increment \<^verbatim>\<open>i++\<close> included: either the record of
  \<open>unicode\<close> is found (\<^verbatim>\<open>break\<close>), or the loop goes on with a new pointer and counter.\<close>

datatype scan_state = Found int | Next int int

definition scan_iter :: "memory \<Rightarrow> 32 word \<Rightarrow> int \<Rightarrow> int \<Rightarrow> scan_state" where
  "scan_iter f unicode ptr i =
     (if f ptr = 0xFF then Next (ptr + 1) (i + 65535 + 1)
      else if f ptr AND 0xC0 = 0xC0 then
        Next (ptr + 2) (i + (push_bit 8 (uint (f ptr AND 0x3F)) OR uint (f (ptr + 1))) + 1)
      else if f ptr AND 0xC0 = 0x80 then
        Next (ptr + 1) (i + uint (f ptr AND 0x3F) + 1)
      else if word_of_int i = unicode then Found ptr
      else Next (ptr + (6 + uint (f (ptr + 1)) * (if f ptr AND 0x40 \<noteq> 0 then 6 else 5))) (i + 1))"

function scan :: "memory \<Rightarrow> 32 word \<Rightarrow> int \<Rightarrow> int \<Rightarrow> int option" where
  "scan f unicode ptr i =
     (if i < 0x110000 then
        (case scan_iter f unicode ptr i of
           Found chr \<Rightarrow> Some chr
         | Next ptr' i' \<Rightarrow> scan f unicode ptr' i')
      else None)"
  by pat_completeness auto
termination
proof (relation "measure (\<lambda>(f, unicode, ptr, i). nat (0x110000 - i))")
  fix f :: memory and unicode :: "32 word" and ptr i ptr' i' :: int
  assume "i < 0x110000" and nxt: "scan_iter f unicode ptr i = Next ptr' i'"
  have "0 \<le> push_bit 8 (uint (f ptr AND 0x3F)) OR uint (f (ptr + 1))"
    by simp
  with nxt have "i < i'"
    by (auto simp: scan_iter_def split: if_splits intro: add_strict_increasing2 [of 1])
  with \<open>i < 0x110000\<close>
  show "((f, unicode, ptr', i'), (f, unicode, ptr, i))
          \<in> measure (\<lambda>(f, unicode, ptr, i). nat (0x110000 - i))"
    by simp
qed simp

subsection \<open>Pixel stores\<close>

text \<open>The renderer only writes the frame buffer, it never reads it back. Every store
  \<^verbatim>\<open>*p = c\<close> is logged with the pointer \<open>p\<close> (as a byte offset from \<^verbatim>\<open>ssfn_dst.ptr\<close>),
  the row counter \<open>y\<close> and the column counter (\<open>j\<close> or \<open>l\<close>) at that moment, and the
  colour \<open>c\<close>. The stores are applied to the memory in the order of the log.\<close>

record store =
  st_addr :: int
  st_row :: int
  st_col :: int
  st_val :: "32 word"

text \<open>A store of a \<^verbatim>\<open>SSFN_PIXEL\<close> writes the low bytes of the colour, lowest first.\<close>

definition poke :: "pixel_fmt \<Rightarrow> memory \<Rightarrow> store \<Rightarrow> memory" where
  "poke fmt mem st =
     (\<lambda>a. if st_addr st \<le> a \<and> a < st_addr st + sizeof_pixel fmt
          then ucast (drop_bit (8 * nat (a - st_addr st)) (st_val st))
          else mem a)"

text \<open>\<^verbatim>\<open>s = ssfn_dst.p / sizeof(SSFN_PIXEL)\<close> (line 271), in pixels; \<open>row_step\<close> is the
  byte distance of \<^verbatim>\<open>o += s\<close>.\<close>

definition row_step :: "pixel_fmt \<Rightarrow> ssfn_buf \<Rightarrow> int" where
  "row_step fmt dst = (uint (dst_p dst) div sizeof_pixel fmt) * sizeof_pixel fmt"

subsection \<open>Background rows (lines 304-307 and 320-323)\<close>

text \<open>The inner loop \<^verbatim>\<open>for(p = o, j = 0; j < chr[2] && (!w || ssfn_dst.x + j < w); j++, p++)\<close>;
  \<open>cw\<close> is \<^verbatim>\<open>chr[2]\<close>.\<close>

function fill_row ::
  "pixel_fmt \<Rightarrow> ssfn_buf \<Rightarrow> int \<Rightarrow> int \<Rightarrow> int \<Rightarrow> int \<Rightarrow> int \<Rightarrow> store list" where
  "fill_row fmt dst w cw y p j =
     (if j < cw \<and> (w = 0 \<or> dst_x dst + j < w) then
        \<lparr>st_addr = p, st_row = y, st_col = j, st_val = dst_bg dst\<rparr>
          # fill_row fmt dst w cw y (p + sizeof_pixel fmt) (j + 1)
      else [])"
  by pat_completeness auto
termination
  by (relation "measure (\<lambda>(fmt, dst, w, cw, y, p, j). nat (cw - j))") auto

text \<open>The outer loop \<^verbatim>\<open>for(; y < lim && (!ssfn_dst.h || ssfn_dst.y + y < ssfn_dst.h); y++, o += s)\<close>
  with \<open>lim\<close> either \<^verbatim>\<open>ptr[1]\<close> or \<^verbatim>\<open>chr[3]\<close>; it returns the stores and the final \<open>y\<close>
  and \<open>o\<close> (here \<open>po\<close>).\<close>

function fill ::
  "pixel_fmt \<Rightarrow> ssfn_buf \<Rightarrow> int \<Rightarrow> int \<Rightarrow> int \<Rightarrow> int \<Rightarrow> int \<Rightarrow> store list \<times> int \<times> int" where
  "fill fmt dst w cw lim y po =
     (if y < lim \<and> (dst_h dst = 0 \<or> dst_y dst + y < dst_h dst) then
        (case fill fmt dst w cw lim (y + 1) (po + row_step fmt dst) of
           (sts, y', po') \<Rightarrow> (fill_row fmt dst w cw y po 0 @ sts, y', po'))
      else ([], y, po))"
  by pat_completeness auto
termination
  by (relation "measure (\<lambda>(fmt, dst, w, cw, lim, y, po). nat (lim - y))") auto

subsection \<open>Bitmap fragment rows (lines 309-317)\<close>

text \<open>The inner loop \<^verbatim>\<open>for(p = o, l = 0; l < k; l++, p++, m <<= 1)\<close>. It returns the
  stores and the fragment pointer and mask it leaves behind for the next row.\<close>

function blit_row ::
  "pixel_fmt \<Rightarrow> memory \<Rightarrow> ssfn_buf \<Rightarrow> int \<Rightarrow> int \<Rightarrow> int \<Rightarrow> int \<Rightarrow> int \<Rightarrow> int \<Rightarrow> int
     \<Rightarrow> store list \<times> int \<times> int" where
  "blit_row fmt f dst w k y frg m p l =
     (if l < k then
        (let frg1 = (if m > 0x80 then frg + 1 else frg);
             m1 = (if m > 0x80 then 1 else m);
             st = (if dst_x dst + l \<ge> 0 \<and> (w = 0 \<or> dst_x dst + l < w) then
                     (if uint (f frg1) AND m1 \<noteq> 0 then
                        [\<lparr>st_addr = p, st_row = y, st_col = l, st_val = dst_fg dst\<rparr>]
                      else if dst_bg dst \<noteq> 0 then
                        [\<lparr>st_addr = p, st_row = y, st_col = l, st_val = dst_bg dst\<rparr>]
                      else [])
                   else [])
         in case blit_row fmt f dst w k y frg1 (push_bit 1 m1) (p + sizeof_pixel fmt) (l + 1) of
              (sts, frg', m') \<Rightarrow> (st @ sts, frg', m'))
      else ([], frg, m))"
  by pat_completeness auto
termination
  by (relation "measure (\<lambda>(fmt, f, dst, w, k, y, frg, m, p, l). nat (k - l))") auto

text \<open>The outer loop
  \<^verbatim>\<open>for(m = 1; j && (!ssfn_dst.h || ssfn_dst.y + y < ssfn_dst.h); j--, y++, o += s)\<close>.
  The counter \<open>j\<close> starts at \<^verbatim>\<open>frg[1] + 1\<close> and counts down to 0, so it is a natural
  number here.\<close>

function blit ::
  "pixel_fmt \<Rightarrow> memory \<Rightarrow> ssfn_buf \<Rightarrow> int \<Rightarrow> int \<Rightarrow> nat \<Rightarrow> int \<Rightarrow> int \<Rightarrow> int \<Rightarrow> int
     \<Rightarrow> store list \<times> int \<times> int" where
  "blit fmt f dst w k j y po frg m =
     (if j \<noteq> 0 \<and> (dst_h dst = 0 \<or> dst_y dst + y < dst_h dst) then
        (case blit_row fmt f dst w k y frg m po 0 of
           (row, frg', m') \<Rightarrow>
             (case blit fmt f dst w k (j - 1) (y + 1) (po + row_step fmt dst) frg' m' of
                (sts, y', po') \<Rightarrow> (row @ sts, y', po')))
      else ([], y, po))"
  by pat_completeness auto
termination
  by (relation "measure (\<lambda>(fmt, f, dst, w, k, j, y, po, frg, m). j)") auto

text \<open>Lines 309-317 for the fragment at \<open>frg\<close>:
  \<^verbatim>\<open>k = ((frg[0] & 0x1F) + 1) << 3; j = frg[1] + 1; frg += 2;\<close> and the two loops, from
  row \<open>y\<close> and pointer \<open>o\<close>.\<close>

definition draw_fragment ::
  "pixel_fmt \<Rightarrow> memory \<Rightarrow> ssfn_buf \<Rightarrow> int \<Rightarrow> int \<Rightarrow> int \<Rightarrow> int \<Rightarrow> store list \<times> int \<times> int" where
  "draw_fragment fmt f dst w frg y po =
     blit fmt f dst w (push_bit 3 (uint (f frg AND 0x1F) + 1)) (unat (f (frg + 1)) + 1)
       y po (frg + 2) 1"

subsection \<open>The fragments of a glyph (lines 297-323)\<close>

text \<open>The fragment offset of a reference at \<open>ptr\<close> (lines 300-301): four bytes when bit
  \<^verbatim>\<open>0x40\<close> of \<^verbatim>\<open>chr[0]\<close> is set, else three. The shifts are done in \<^verbatim>\<open>int\<close>, so
  a fourth byte of \<^verbatim>\<open>0x80\<close> or more gives a negative offset.\<close>

definition frag_offs :: "memory \<Rightarrow> int \<Rightarrow> int \<Rightarrow> int" where
  "frag_offs f chr ptr =
     (if f chr AND 0x40 \<noteq> 0 then
        sint (push_bit 24 (ucast (f (ptr + 5))) OR push_bit 16 (ucast (f (ptr + 4)))
                OR push_bit 8 (ucast (f (ptr + 3))) OR ucast (f (ptr + 2)) :: 32 word)
      else
        push_bit 16 (uint (f (ptr + 4))) OR push_bit 8 (uint (f (ptr + 3))) OR uint (f (ptr + 2)))"

definition ref_size :: "memory \<Rightarrow> int \<Rightarrow> int" where
  "ref_size f chr = (if f chr AND 0x40 \<noteq> 0 then 6 else 5)"

text \<open>The loop \<^verbatim>\<open>for(i = 0; i < chr[1]; i++, ptr += chr[0] & 0x40 ? 6 : 5)\<close>, from a given
  \<open>i\<close>, \<open>ptr\<close>, \<open>y\<close> and \<open>o\<close>.\<close>

function frags ::
  "pixel_fmt \<Rightarrow> memory \<Rightarrow> ssfn_buf \<Rightarrow> int \<Rightarrow> int \<Rightarrow> int \<Rightarrow> int \<Rightarrow> int \<Rightarrow> int
     \<Rightarrow> store list \<times> int \<times> int" where
  "frags fmt f dst w chr i ptr y po =
     (if i < uint (f (chr + 1)) then
        (if f ptr = 255 \<and> f (ptr + 1) = 255 then
           frags fmt f dst w chr (i + 1) (ptr + ref_size f chr) y po
         else if f (frag_offs f chr ptr) AND 0xE0 \<noteq> 0x80 then
           frags fmt f dst w chr (i + 1) (ptr + ref_size f chr) y po
         else
           (case (if dst_bg dst \<noteq> 0 then
                    fill fmt dst w (uint (f (chr + 2))) (uint (f (ptr + 1))) y po
                  else ([], uint (f (ptr + 1)),
                        po + (uint (f (ptr + 1)) - y) * row_step fmt dst)) of
              (sts1, y1, o1) \<Rightarrow>
                (case draw_fragment fmt f dst w (frag_offs f chr ptr) y1 o1 of
                   (sts2, y2, o2) \<Rightarrow>
                     (case frags fmt f dst w chr (i + 1) (ptr + ref_size f chr) y2 o2 of
                        (sts3, y3, o3) \<Rightarrow> (sts1 @ sts2 @ sts3, y3, o3)))))
      else ([], y, po))"
  by pat_completeness auto
termination
  by (relation "measure (\<lambda>(fmt, f, dst, w, chr, i, ptr, y, po). nat (uint (f (chr + 1)) - i))") auto

text \<open>Lines 297-323: the stores of the glyph whose record is at \<open>chr\<close>, drawn at the
  cursor of \<open>dst\<close>.\<close>

definition render :: "pixel_fmt \<Rightarrow> memory \<Rightarrow> ssfn_buf \<Rightarrow> int \<Rightarrow> int \<Rightarrow> store list" where
  "render fmt f dst w chr =
     (case frags fmt f dst w chr 0 (chr + 6) 0
             (dst_y dst * uint (dst_p dst) + dst_x dst * sizeof_pixel fmt) of
        (sts, y, po) \<Rightarrow>
          sts @ (if dst_bg dst \<noteq> 0 then
                   fst (fill fmt dst w (uint (f (chr + 2))) (uint (f (chr + 3))) y po)
                 else []))"

subsection \<open>The control block (lines 283-294)\<close>

text \<open>Lines 284-288: tab stop, line wrap and newline. \<open>i\<close> is the font height, \<open>chr\<close>
  the record the scan found, if any.\<close>

definition advance_cursor ::
  "memory \<Rightarrow> 32 word \<Rightarrow> int option \<Rightarrow> int \<Rightarrow> int \<Rightarrow> ssfn_buf \<Rightarrow> fault + ssfn_buf" where
  "advance_cursor f unicode chr w i dst =
     (case (case chr of
              Some c \<Rightarrow>
                if w \<noteq> 0 then
                  (case (if unicode = 9 then
                           (if f (c + 4) = 0 then Inl DivByZero
                            else Inr (dst\<lparr>dst_x := dst_x dst - dst_x dst smod uint (f (c + 4))\<rparr>))
                         else Inr dst) of
                     Inl e \<Rightarrow> Inl e
                   | Inr d \<Rightarrow>
                       Inr (if dst_x d + uint (f (c + 4)) > w
                            then d\<lparr>dst_x := 0, dst_y := dst_y d + i\<rparr> else d))
                else Inr dst
            | None \<Rightarrow> Inr dst) of
        Inl e \<Rightarrow> Inl e
      | Inr d \<Rightarrow> Inr (if unicode = 10 then d\<lparr>dst_y := dst_y d + i\<rparr> else d))"

text \<open>Line 292: the two nested byte-copy loops, \<open>k\<close> over \<open>0..<j\<close> and \<open>l\<close> over
  \<open>0..<ssfn_dst.p\<close>.\<close>

definition scroll_row :: "int \<Rightarrow> int \<Rightarrow> memory \<Rightarrow> int \<Rightarrow> memory" where
  "scroll_row p i mem k =
     foldl (\<lambda>m l. m(k * p + l := m ((k + i) * p + l))) mem (map int [0..<nat p])"

definition scroll_rows :: "int \<Rightarrow> int \<Rightarrow> int \<Rightarrow> memory \<Rightarrow> memory" where
  "scroll_rows p i j mem = foldl (scroll_row p i) mem (map int [0..<nat j])"

text \<open>Lines 289-293, for \<open>j\<close> as computed on line 283.\<close>

definition scroll :: "int \<Rightarrow> int \<Rightarrow> ssfn_buf \<Rightarrow> ssfn_buf" where
  "scroll i j dst =
     (if j > 0 \<and> dst_y dst > j then
        dst\<lparr>dst_y := j,
            dst_ptr := map_option (scroll_rows (uint (dst_p dst)) i j) (dst_ptr dst)\<rparr>
      else dst)"

text \<open>Lines 283-293. The remainder \<^verbatim>\<open>ssfn_dst.h % i\<close> is computed first, on every call.\<close>

definition control ::
  "memory \<Rightarrow> 32 word \<Rightarrow> int option \<Rightarrow> int \<Rightarrow> ssfn_buf \<Rightarrow> fault + ssfn_buf" where
  "control f unicode chr w dst =
     (let i = font_height f in
      if i = 0 then Inl DivByZero
      else
        (case advance_cursor f unicode chr w i dst of
           Inl e \<Rightarrow> Inl e
         | Inr d \<Rightarrow> Inr (scroll i (dst_h dst - i - dst_h dst smod i) d)))"

subsection \<open>\<^verbatim>\<open>ssfn_putc\<close> (lines 258-326)\<close>

text \<open>Lines 296-325, after the scan and the control block.\<close>

definition draw :: "pixel_fmt \<Rightarrow> memory \<Rightarrow> int option \<Rightarrow> int \<Rightarrow> ssfn_buf \<Rightarrow> int \<times> ssfn_buf" where
  "draw fmt f chr w dst =
     (case chr of
        None \<Rightarrow> (SSFN_ERR_NOGLYPH, dst)
      | Some c \<Rightarrow>
          (SSFN_OK,
           dst\<lparr>dst_ptr := map_option (\<lambda>mem. foldl (poke fmt) mem (render fmt f dst w c))
                             (dst_ptr dst),
               dst_x := dst_x dst + uint (f (c + 4)),
               dst_y := dst_y dst + uint (f (c + 5))\<rparr>))"

definition ssfn_putc ::
  "config \<Rightarrow> memory option \<Rightarrow> ssfn_buf \<Rightarrow> 32 word \<Rightarrow> fault + int \<times> ssfn_buf" where
  "ssfn_putc cfg ssfn_src ssfn_dst unicode =
     (case ssfn_src of
        None \<Rightarrow> Inr (SSFN_ERR_INVINP, ssfn_dst)
      | Some f \<Rightarrow>
          if \<not> magic_ok f \<or> dst_ptr ssfn_dst = None \<or> dst_p ssfn_dst = 0 then
            Inr (SSFN_ERR_INVINP, ssfn_dst)
          else
            (let w = (if dst_w ssfn_dst < 0 then - dst_w ssfn_dst else dst_w ssfn_dst);
                 chr = scan f unicode (characters_offs f) 0
             in if cfg_control cfg then
                  (case control f unicode chr w ssfn_dst of
                     Inl e \<Rightarrow> Inl e
                   | Inr d \<Rightarrow>
                       if unicode = 13 \<or> unicode = 10 then Inr (SSFN_OK, d\<lparr>dst_x := 0\<rparr>)
                       else Inr (draw (cfg_pixel cfg) f chr w d))
                else Inr (draw (cfg_pixel cfg) f chr w ssfn_dst)))"

subsection \<open>Fragment drawing, pixel by pixel\<close>

text \<open>The loops of the renderer are compared below with these closed descriptions;
  they are not part of the embedding of the code.\<close>

text \<open>Pixel \<open>n\<close> of a fragment, counted row by row from 0, whose payload starts at
  \<open>base\<close>: bit \<open>n mod 8\<close>, counted from the least significant, of byte \<open>n div 8\<close>.\<close>

definition payload_bit :: "memory \<Rightarrow> int \<Rightarrow> nat \<Rightarrow> bool" where
  "payload_bit f base n \<longleftrightarrow> bit (f (base + int (n div 8))) (n mod 8)"

text \<open>What the loop body of lines 312-316 stores for pixel \<open>n\<close>, at pointer \<open>p\<close>, row
  \<open>y\<close> and column \<open>l\<close>.\<close>

definition pixel_store ::
  "memory \<Rightarrow> ssfn_buf \<Rightarrow> int \<Rightarrow> int \<Rightarrow> nat \<Rightarrow> int \<Rightarrow> int \<Rightarrow> int \<Rightarrow> store list" where
  "pixel_store f dst w base n y p l =
     (if 0 \<le> dst_x dst + l \<and> (w = 0 \<or> dst_x dst + l < w) then
        (if payload_bit f base n then
           [\<lparr>st_addr = p, st_row = y, st_col = l, st_val = dst_fg dst\<rparr>]
         else if dst_bg dst \<noteq> 0 then
           [\<lparr>st_addr = p, st_row = y, st_col = l, st_val = dst_bg dst\<rparr>]
         else [])
      else [])"

text \<open>The number of rows drawn of a fragment of \<open>j\<close> rows that starts at row \<open>y\<close> of
  the cell: all of them, or those above the destination height.\<close>

definition frag_rows :: "ssfn_buf \<Rightarrow> nat \<Rightarrow> int \<Rightarrow> nat" where
  "frag_rows dst j y =
     (if dst_h dst = 0 then j else min j (nat (dst_h dst - (dst_y dst + y))))"

text \<open>The stores of a fragment of \<open>j\<close> rows of \<open>k\<close> pixels, pixel by pixel.\<close>

definition frag_stores ::
  "pixel_fmt \<Rightarrow> memory \<Rightarrow> ssfn_buf \<Rightarrow> int \<Rightarrow> nat \<Rightarrow> nat \<Rightarrow> int \<Rightarrow> int \<Rightarrow> int \<Rightarrow> store list" where
  "frag_stores fmt f dst w k j y po base =
     concat (map (\<lambda>r.
       concat (map (\<lambda>l.
         pixel_store f dst w base (r * k + l) (y + int r)
           (po + int r * row_step fmt dst + int l * sizeof_pixel fmt) (int l))
         [0..<k]))
       [0..<frag_rows dst j y])"

text \<open>The fragment pointer and the mask on entry to the loop body at pixel \<open>n\<close>, before
  the test \<^verbatim>\<open>m > 0x80\<close>.\<close>

definition frg_at :: "int \<Rightarrow> nat \<Rightarrow> int" where
  "frg_at base n = base + int ((n - 1) div 8)"

definition m_at :: "nat \<Rightarrow> int" where
  "m_at n = (if n = 0 then 1 else 2 * 2 ^ ((n - 1) mod 8))"

text \<open>What every store of a glyph satisfies: it lies inside the horizontal and vertical
  bounds of the destination, and its address is that of pixel (row, column) counted from
  the byte offset \<open>po0\<close> of the cursor.\<close>

definition store_ok :: "pixel_fmt \<Rightarrow> ssfn_buf \<Rightarrow> int \<Rightarrow> int \<Rightarrow> store \<Rightarrow> bool" where
  "store_ok fmt dst w po0 s \<longleftrightarrow>
     0 \<le> st_col s \<and> (w = 0 \<or> dst_x dst + st_col s < w)
     \<and> (dst_h dst = 0 \<or> dst_y dst + st_row s < dst_h dst)
     \<and> st_addr s = po0 + st_row s * row_step fmt dst + st_col s * sizeof_pixel fmt"

text \<open>The \<open>i\<close>-th fragment reference of the record at \<open>chr\<close>.\<close>

definition frag_ref :: "memory \<Rightarrow> int \<Rightarrow> nat \<Rightarrow> int" where
  "frag_ref f chr i = chr + 6 + int i * ref_size f chr"

text \<open>The foreground pixels of a fragment of \<open>j\<close> rows of \<open>k\<close> pixels whose first
  row is row \<open>y\<close> of the cell, at pointer \<open>po\<close>: one store of the foreground colour for
  every set bit of the payload that lies inside the bounds of the destination.\<close>

definition fg_pixels ::
  "pixel_fmt \<Rightarrow> memory \<Rightarrow> ssfn_buf \<Rightarrow> int \<Rightarrow> nat \<Rightarrow> nat \<Rightarrow> int \<Rightarrow> int \<Rightarrow> int \<Rightarrow> store list" where
  "fg_pixels fmt f dst w k j y po base =
     concat (map (\<lambda>r.
       concat (map (\<lambda>l.
         if 0 \<le> dst_x dst + int l \<and> (w = 0 \<or> dst_x dst + int l < w)
            \<and> payload_bit f base (r * k + l)
         then [\<lparr>st_addr = po + int r * row_step fmt dst + int l * sizeof_pixel fmt,
                st_row = y + int r, st_col = int l, st_val = dst_fg dst\<rparr>]
         else [])
         [0..<k]))
       [0..<frag_rows dst j y])"

text \<open>The foreground pixels of the glyph whose record is at \<open>chr\<close>, drawn at the cursor
  of \<open>dst\<close>: those of each of its bitmap fragments, the first row of a fragment being row
  \<^verbatim>\<open>ptr[1]\<close> of the cell. References \<^verbatim>\<open>FF FF\<close> and fragments of another type have
  none.\<close>

definition glyph_fg :: "pixel_fmt \<Rightarrow> memory \<Rightarrow> ssfn_buf \<Rightarrow> int \<Rightarrow> int \<Rightarrow> store list" where
  "glyph_fg fmt f dst w chr =
     concat (map (\<lambda>i.
       if (f (frag_ref f chr i) = 255 \<and> f (frag_ref f chr i + 1) = 255)
          \<or> f (frag_offs f chr (frag_ref f chr i)) AND 0xE0 \<noteq> 0x80
       then []
       else fg_pixels fmt f dst w
              (8 * (unat (f (frag_offs f chr (frag_ref f chr i)) AND 0x1F) + 1))
              (unat (f (frag_offs f chr (frag_ref f chr i) + 1)) + 1)
              (uint (f (frag_ref f chr i + 1)))
              (dst_y dst * uint (dst_p dst) + dst_x dst * sizeof_pixel fmt
                 + uint (f (frag_ref f chr i + 1)) * row_step fmt dst)
              (frag_offs f chr (frag_ref f chr i) + 2))
       [0..<unat (f (chr + 1))])"

subsection \<open>Concrete inputs\<close>

text \<open>A font header of 32 bytes: the magic \<^verbatim>\<open>SFN2\<close>, width 8, height \<open>h\<close>, and the
  character table right after the header, at offset 32.\<close>

definition header :: "8 word \<Rightarrow> 8 word list" where
  "header h = [0x53, 0x46, 0x4E, 0x32, 0, 0, 0, 0, 0, 0, 8, h, 0, 0, 0, 0,
               32, 0, 0, 0, 0, 0, 0, 0, 0, 0, 0, 0, 0, 0, 0, 0]"

text \<open>Seventeen markers \<^verbatim>\<open>FF\<close> skip 17 * 65536 code points and end every scan.\<close>

definition end_of_table :: "8 word list" where
  "end_of_table = [0xFF, 0xFF, 0xFF, 0xFF, 0xFF, 0xFF, 0xFF, 0xFF, 0xFF,
                   0xFF, 0xFF, 0xFF, 0xFF, 0xFF, 0xFF, 0xFF, 0xFF]"

text \<open>A font with no glyph; one with a glyph for the newline, code point 10, of advance
  8; one of height 0; and one with a glyph for the tab, code point 9, of advance 0.\<close>

definition font_empty :: memory where
  "font_empty = bytes (header 16 @ end_of_table)"

definition font_nl :: memory where
  "font_nl = bytes (header 16 @ [0x89, 0, 0, 8, 16, 8, 0] @ end_of_table)"

definition font_flat :: memory where
  "font_flat = bytes (header 0 @ end_of_table)"

definition font_tab :: memory where
  "font_tab = bytes (header 16 @ [0x88, 0, 0, 8, 16, 0, 0] @ end_of_table)"

text \<open>32-bit pixels, with the control block compiled in.\<close>

definition with_control :: config where
  "with_control = \<lparr>cfg_pixel = TRUECOLOR, cfg_control = True\<rparr>"

text \<open>A frame buffer of 16 pixels of 4 bytes per row, cursor at the origin, white on
  transparent; byte \<open>a\<close> of its memory holds \<open>a mod 256\<close>.\<close>

definition ramp :: memory where
  "ramp a = word_of_int a"

definition screen :: "int \<Rightarrow> int \<Rightarrow> ssfn_buf" where
  "screen w h = \<lparr>dst_ptr = Some ramp, dst_w = w, dst_h = h, dst_p = 64,
                  dst_x = 0, dst_y = 0, dst_fg = 0xFFFFFFFF, dst_bg = 0\<rparr>"

text \<open>The table and the fragment of a font with a single glyph, the letter A: a cell of
  4 by 2 pixels, advance 8, one bitmap fragment of 8 pixels by 2 rows (row count byte 1)
  with payload \<^verbatim>\<open>80 01\<close>.\<close>

definition glyph_A :: "8 word list" where
  "glyph_A = [0xBF, 0x80, 0, 1, 4, 2, 8, 0, 0, 0, 62, 0, 0] @ end_of_table
               @ [0x80, 0x01, 0x80, 0x01]"

text \<open>That glyph in a font of height 16 and in a font of height 1.\<close>

definition font_A :: memory where
  "font_A = bytes (header 16 @ glyph_A)"

definition font_A1 :: memory where
  "font_A1 = bytes (header 1 @ glyph_A)"

text \<open>A frame buffer of two rows of one pixel, the cursor below its last row.\<close>

definition tiny :: ssfn_buf where
  "tiny = \<lparr>dst_ptr = Some ramp, dst_w = 16, dst_h = 2, dst_p = 4,
           dst_x = 0, dst_y = 2, dst_fg = 0xFFFFFFFF, dst_bg = 0\<rparr>"

text \<open>A table whose first entry is the two-byte skip marker \<^verbatim>\<open>C1 05\<close>, followed by one
  record.\<close>

definition table_skip :: memory where
  "table_skip = bytes ([0xC1, 0x05, 0, 0, 8, 16, 8, 0] @ end_of_table)"

text \<open>A font whose only glyph is the space, code point 32: a cell of 4 by 2 pixels with no
  fragment. And one whose only glyph is a letter A with a cell of 4 by 3 pixels and one
  bitmap fragment of 8 pixels by 1 row, payload \<^verbatim>\<open>01\<close>, on row 1 of the cell.\<close>

definition font_sp :: memory where
  "font_sp = bytes (header 16 @ [0x9F, 0, 0, 4, 2, 8, 0] @ end_of_table)"

definition font_B :: memory where
  "font_B = bytes (header 16 @ [0xBF, 0x80, 0, 1, 4, 3, 8, 0, 0, 1, 62, 0, 0] @ end_of_table
                     @ [0x80, 0x00, 0x01])"

text \<open>The frame buffer \<open>screen 16 16\<close> with an opaque background, colour 1.\<close>

definition opaque :: ssfn_buf where
  "opaque = \<lparr>dst_ptr = Some ramp, dst_w = 16, dst_h = 16, dst_p = 64,
             dst_x = 0, dst_y = 0, dst_fg = 0xFFFFFFFF, dst_bg = 1\<rparr>"

section \<open>Auxiliary facts\<close>

lemmas font_defs = header_def end_of_table_def bytes_def magic_ok_def characters_offs_def
  font_height_def
lemmas putc_defs = ssfn_putc_def control_def advance_cursor_def scroll_def draw_def
  SSFN_OK_def SSFN_ERR_INVINP_def SSFN_ERR_NOGLYPH_def

declare scan.simps [simp del] fill_row.simps [simp del] fill.simps [simp del]
  blit_row.simps [simp del] blit.simps [simp del] frags.simps [simp del]

lemma font_empty_facts:
  "magic_ok font_empty" "characters_offs font_empty = 32" "font_height font_empty = 16"
  "scan font_empty u 32 0 = None"
  by (simp_all add: font_empty_def font_defs scan_iter_def scan.simps)

lemma font_nl_facts:
  "magic_ok font_nl" "characters_offs font_nl = 32" "font_height font_nl = 16"
  "scan font_nl 10 32 0 = Some 33" "font_nl 37 = 8"
  by (simp_all add: font_nl_def font_defs scan_iter_def scan.simps)

lemma font_tab_facts:
  "magic_ok font_tab" "characters_offs font_tab = 32" "font_height font_tab = 16"
  "scan font_tab 9 32 0 = Some 33" "font_tab 37 = 0"
  by (simp_all add: font_tab_def font_defs scan_iter_def scan.simps)

lemma font_flat_facts:
  "magic_ok font_flat" "characters_offs font_flat = 32" "font_height font_flat = 0"
  by (simp_all add: font_flat_def font_defs)

lemma font_A_facts:
  "magic_ok font_A" "characters_offs font_A = 32" "font_height font_A = 16"
  "scan font_A 0x41 32 0 = Some 34"
  by (simp_all add: font_A_def glyph_A_def font_defs scan_iter_def scan.simps)

lemma font_A1_facts:
  "magic_ok font_A1" "characters_offs font_A1 = 32" "font_height font_A1 = 1"
  "scan font_A1 0x41 32 0 = Some 34" "font_A1 38 = 8"
  by (simp_all add: font_A1_def glyph_A_def font_defs scan_iter_def scan.simps)

lemma font_sp_facts:
  "scan font_sp 0x20 32 0 = Some 33" "font_sp 34 = 0" "font_sp 35 = 4"
  by (simp_all add: font_sp_def font_defs scan_iter_def scan.simps)

lemma scroll_row_upto:
  assumes "0 \<le> i * p"
  shows "foldl (\<lambda>m l. m(k * p + l := m ((k + i) * p + l))) mem (map int [0..<n])
         = (\<lambda>a. if k * p \<le> a \<and> a < k * p + int n then mem (a + i * p) else mem a)"
proof (induction n)
  case 0
  show ?case by (auto simp: fun_eq_iff)
next
  case (Suc n)
  have "(k + i) * p = k * p + i * p" by (simp add: algebra_simps)
  with assms Suc show ?case
    by (auto simp: fun_eq_iff algebra_simps)
qed

lemma scroll_row_eq:
  assumes "0 \<le> i" "0 \<le> p"
  shows "scroll_row p i mem k
         = (\<lambda>a. if k * p \<le> a \<and> a < k * p + p then mem (a + i * p) else mem a)"
  using assms scroll_row_upto [of i p k mem "nat p"] by (simp add: scroll_row_def)

lemma scroll_rows_upto:
  assumes "0 \<le> i" "0 \<le> p"
  shows "foldl (scroll_row p i) mem (map int [0..<n])
         = (\<lambda>a. if 0 \<le> a \<and> a < int n * p then mem (a + i * p) else mem a)"
proof (induction n)
  case 0
  show ?case by (auto simp: fun_eq_iff)
next
  case (Suc n)
  have ip: "0 \<le> i * p" using assms by simp
  have np: "\<And>a. p * int n \<le> a \<Longrightarrow> 0 \<le> a"
    using assms(2) by (rule order_trans [OF mult_nonneg_nonneg]) simp_all
  let ?g = "\<lambda>a. if 0 \<le> a \<and> a < int n * p then mem (a + i * p) else mem a"
  have "foldl (scroll_row p i) mem (map int [0..<Suc n]) = scroll_row p i ?g (int n)"
    by (simp add: Suc)
  also have "\<dots> = (\<lambda>a. if int n * p \<le> a \<and> a < int n * p + p then ?g (a + i * p) else ?g a)"
    by (rule scroll_row_eq [OF assms])
  also have "\<dots> = (\<lambda>a. if 0 \<le> a \<and> a < int (Suc n) * p then mem (a + i * p) else mem a)"
    using ip assms(2) by (auto simp: fun_eq_iff algebra_simps dest: np)
  finally show ?case .
qed

lemma scroll_rows_eq:
  assumes "0 \<le> i" "0 \<le> p" "0 \<le> j"
  shows "scroll_rows p i j mem
         = (\<lambda>a. if 0 \<le> a \<and> a < j * p then mem (a + i * p) else mem a)"
  using assms scroll_rows_upto [of i p mem "nat j"] by (simp add: scroll_rows_def)

subsection \<open>The loops of the renderer in closed form\<close>

lemma mask_test:
  "(if m_at n > 0x80 then frg_at base n + 1 else frg_at base n) = base + int (n div 8)"
  "(if m_at n > 0x80 then 1 else m_at n) = 2 ^ (n mod 8)"
proof -
  have pow: "(2::int) * 2 ^ k > 0x80 \<longleftrightarrow> 7 \<le> k" for k :: nat
  proof
    assume "7 \<le> k"
    then have "(2::int) ^ 7 \<le> 2 ^ k" by (intro power_increasing) simp_all
    then show "(2::int) * 2 ^ k > 0x80" by simp
  next
    assume a: "(2::int) * 2 ^ k > 0x80"
    show "7 \<le> k"
    proof (rule ccontr)
      assume "\<not> 7 \<le> k"
      then have "k \<le> 6" by simp
      then have "(2::int) ^ k \<le> 2 ^ 6" by (intro power_increasing) simp_all
      with a show False by simp
    qed
  qed
  show "(if m_at n > 0x80 then frg_at base n + 1 else frg_at base n) = base + int (n div 8)"
  proof (cases n)
    case 0
    then show ?thesis by (simp add: m_at_def frg_at_def)
  next
    case (Suc n')
    have "n' mod 8 < 8" by simp
    then show ?thesis
      using Suc by (auto simp: m_at_def frg_at_def pow div_Suc mod_Suc)
  qed
  show "(if m_at n > 0x80 then 1 else m_at n) = 2 ^ (n mod 8)"
  proof (cases n)
    case 0
    then show ?thesis by (simp add: m_at_def)
  next
    case (Suc n')
    have "n' mod 8 < 8" by simp
    then show ?thesis
      using Suc by (auto simp: m_at_def pow mod_Suc)
  qed
qed

lemma mask_next:
  "push_bit 1 ((2::int) ^ (n mod 8)) = m_at (Suc n)" "base + int (n div 8) = frg_at base (Suc n)"
  by (simp_all add: m_at_def frg_at_def)

lemma mask_bit: "uint (b :: 8 word) AND 2 ^ k \<noteq> 0 \<longleftrightarrow> bit b k"
proof -
  have "uint b AND 2 ^ k \<noteq> 0 \<longleftrightarrow> bit (uint b) k"
    by (simp add: bit_iff_and_push_bit_not_eq_0 push_bit_eq_mult)
  then show ?thesis by (auto simp: bit_uint_iff dest: bit_imp_le_length)
qed


lemma blit_row_step:
  assumes "l < k"
  shows "blit_row fmt f dst w (int k) y (frg_at base (n0 + l)) (m_at (n0 + l)) p (int l)
         = (case blit_row fmt f dst w (int k) y (frg_at base (n0 + Suc l)) (m_at (n0 + Suc l))
                   (p + sizeof_pixel fmt) (int (Suc l)) of
              (sts, frg', m') \<Rightarrow>
                (pixel_store f dst w base (n0 + l) y p (int l) @ sts, frg', m'))"
  using assms
  by (subst blit_row.simps)
    (auto simp: mask_test mask_bit mask_next [symmetric] Let_def pixel_store_def payload_bit_def
      add.commute [of 1])

lemma blit_row_closed:
  assumes "l \<le> k"
  shows "blit_row fmt f dst w (int k) y (frg_at base (n0 + l)) (m_at (n0 + l)) p (int l)
         = (concat (map (\<lambda>j. pixel_store f dst w base (n0 + j) y
                             (p + int (j - l) * sizeof_pixel fmt) (int j)) [l..<k]),
            frg_at base (n0 + k), m_at (n0 + k))"
  using assms
proof (induction "k - l" arbitrary: l p)
  case 0
  then have "l = k" by simp
  then show ?case by (simp add: blit_row.simps)
next
  case (Suc d)
  then have lt: "l < k" and d: "d = k - Suc l" and le: "Suc l \<le> k"
    by simp_all
  have shift: "map (\<lambda>j. pixel_store f dst w base (n0 + j) y
                   (p + sizeof_pixel fmt + int (j - Suc l) * sizeof_pixel fmt) (int j)) [Suc l..<k]
             = map (\<lambda>j. pixel_store f dst w base (n0 + j) y
                   (p + int (j - l) * sizeof_pixel fmt) (int j)) [Suc l..<k]"
    by (rule map_cong) (auto simp: algebra_simps Suc_diff_Suc of_nat_diff)
  show ?case
    by (simp only: blit_row_step [OF lt] Suc.hyps(1) [OF d le] shift prod.case
        upt_conv_Cons [OF lt] list.map concat.simps) simp
qed


lemma frag_rows_simps:
  "frag_rows dst 0 y = 0"
  "dst_h dst = 0 \<or> dst_y dst + y < dst_h dst \<Longrightarrow>
     frag_rows dst (Suc j) y = Suc (frag_rows dst j (y + 1))"
  "\<not> (dst_h dst = 0 \<or> dst_y dst + y < dst_h dst) \<Longrightarrow> frag_rows dst j y = 0"
proof -
  show "frag_rows dst 0 y = 0"
    by (simp add: frag_rows_def)
  show "frag_rows dst (Suc j) y = Suc (frag_rows dst j (y + 1))"
    if "dst_h dst = 0 \<or> dst_y dst + y < dst_h dst"
  proof (cases "dst_h dst = 0")
    case True
    then show ?thesis by (simp add: frag_rows_def)
  next
    case False
    with that have "nat (dst_h dst - (dst_y dst + y)) = Suc (nat (dst_h dst - (dst_y dst + (y + 1))))"
      by simp
    with False show ?thesis by (simp add: frag_rows_def)
  qed
  show "frag_rows dst j y = 0" if "\<not> (dst_h dst = 0 \<or> dst_y dst + y < dst_h dst)"
    using that by (simp add: frag_rows_def)
qed

lemma blit_row_whole:
  "blit_row fmt f dst w (int k) y (frg_at base (r * k)) (m_at (r * k)) po 0
   = (concat (map (\<lambda>l. pixel_store f dst w base (r * k + l) y
                       (po + int l * sizeof_pixel fmt) (int l)) [0..<k]),
      frg_at base (Suc r * k), m_at (Suc r * k))"
  using blit_row_closed [of 0 k fmt f dst w y base "r * k" po]
  by (simp add: add.commute)

lemma blit_closed_from:
  "blit fmt f dst w (int k) j y po (frg_at base (r0 * k)) (m_at (r0 * k))
   = (concat (map (\<lambda>r.
        concat (map (\<lambda>l.
          pixel_store f dst w base ((r0 + r) * k + l) (y + int r)
            (po + int r * row_step fmt dst + int l * sizeof_pixel fmt) (int l))
          [0..<k]))
        [0..<frag_rows dst j y]),
      y + int (frag_rows dst j y), po + int (frag_rows dst j y) * row_step fmt dst)"
proof (induction j arbitrary: r0 y po)
  case 0
  show ?case by (simp add: blit.simps frag_rows_simps)
next
  case (Suc j)
  show ?case
  proof (cases "dst_h dst = 0 \<or> dst_y dst + y < dst_h dst")
    case False
    then show ?thesis
      by (subst blit.simps) (simp add: frag_rows_simps(3))
  next
    case True
    have rows: "[0..<Suc n] = 0 # map Suc [0..<n]" for n
      by (simp add: upt_conv_Cons map_Suc_upt)
    from True have "blit fmt f dst w (int k) (Suc j) y po (frg_at base (r0 * k)) (m_at (r0 * k))
      = (case blit fmt f dst w (int k) j (y + 1) (po + row_step fmt dst)
                (frg_at base (Suc r0 * k)) (m_at (Suc r0 * k)) of
           (sts, y', po') \<Rightarrow>
             (concat (map (\<lambda>l. pixel_store f dst w base (r0 * k + l) y
                       (po + int l * sizeof_pixel fmt) (int l)) [0..<k]) @ sts, y', po'))"
      by (subst blit.simps) (simp add: blit_row_whole)
    also have "\<dots> = (concat (map (\<lambda>l. pixel_store f dst w base (r0 * k + l) y
                       (po + int l * sizeof_pixel fmt) (int l)) [0..<k]) @
        concat (map (\<lambda>r.
          concat (map (\<lambda>l.
            pixel_store f dst w base ((Suc r0 + r) * k + l) (y + 1 + int r)
              (po + row_step fmt dst + int r * row_step fmt dst + int l * sizeof_pixel fmt)
              (int l))
            [0..<k]))
          [0..<frag_rows dst j (y + 1)]),
        y + 1 + int (frag_rows dst j (y + 1)),
        po + row_step fmt dst + int (frag_rows dst j (y + 1)) * row_step fmt dst)"
      by (simp only: Suc.IH prod.case)
    also have "\<dots> = (concat (map (\<lambda>r.
        concat (map (\<lambda>l.
          pixel_store f dst w base ((r0 + r) * k + l) (y + int r)
            (po + int r * row_step fmt dst + int l * sizeof_pixel fmt) (int l))
          [0..<k]))
        [0..<frag_rows dst (Suc j) y]),
      y + int (frag_rows dst (Suc j) y), po + int (frag_rows dst (Suc j) y) * row_step fmt dst)"
      by (simp add: frag_rows_simps(2) [OF True] rows comp_def algebra_simps del: upt_Suc)
    finally show ?thesis .
  qed
qed

lemma blit_closed:
  "blit fmt f dst w (int k) j y po base 1
   = (frag_stores fmt f dst w k j y po base,
      y + int (frag_rows dst j y), po + int (frag_rows dst j y) * row_step fmt dst)"
  using blit_closed_from [of fmt f dst w k j y po base 0]
  by (simp add: frag_stores_def frg_at_def m_at_def)

lemma fill_row_stores:
  "s \<in> set (fill_row fmt dst w cw y p j) \<Longrightarrow>
     j \<le> st_col s \<and> st_col s < cw \<and> (w = 0 \<or> dst_x dst + st_col s < w)
     \<and> st_addr s = p + (st_col s - j) * sizeof_pixel fmt \<and> st_row s = y
     \<and> st_val s = dst_bg dst"
proof (induction fmt dst w cw y p j rule: fill_row.induct)
  case (1 fmt dst w cw y p j)
  show ?case
  proof (cases "j < cw \<and> (w = 0 \<or> dst_x dst + j < w)")
    case False
    with "1.prems" show ?thesis by (simp add: fill_row.simps)
  next
    case True
    with "1.prems" consider
        "s = \<lparr>st_addr = p, st_row = y, st_col = j, st_val = dst_bg dst\<rparr>"
      | "s \<in> set (fill_row fmt dst w cw y (p + sizeof_pixel fmt) (j + 1))"
      by (subst (asm) fill_row.simps) auto
    then show ?thesis
    proof cases
      case 1
      with True show ?thesis by simp
    next
      case 2
      from "1.IH" [OF True 2] show ?thesis by (auto simp: algebra_simps)
    qed
  qed
qed

lemma fill_stores:
  "fill fmt dst w cw lim y po = (sts, y', po') \<Longrightarrow>
     po' - y' * row_step fmt dst = po - y * row_step fmt dst
     \<and> (\<forall>s \<in> set sts. st_col s < cw \<and> st_val s = dst_bg dst
                      \<and> store_ok fmt dst w (po - y * row_step fmt dst) s)"
proof (induction fmt dst w cw lim y po arbitrary: sts y' po' rule: fill.induct)
  case (1 fmt dst w cw lim y po)
  show ?case
  proof (cases "y < lim \<and> (dst_h dst = 0 \<or> dst_y dst + y < dst_h dst)")
    case False
    with "1.prems" show ?thesis by (simp add: fill.simps)
  next
    case True
    obtain sts1 where rest: "fill fmt dst w cw lim (y + 1) (po + row_step fmt dst) = (sts1, y', po')"
      and sts: "sts = fill_row fmt dst w cw y po 0 @ sts1"
      using True "1.prems" by (subst (asm) fill.simps) (auto split: prod.splits)
    have same: "po + row_step fmt dst - (y + 1) * row_step fmt dst = po - y * row_step fmt dst"
      by (simp add: algebra_simps)
    from "1.IH" [OF True rest] same
    have ih: "po' - y' * row_step fmt dst = po - y * row_step fmt dst"
      "\<forall>s \<in> set sts1. st_col s < cw \<and> st_val s = dst_bg dst
                      \<and> store_ok fmt dst w (po - y * row_step fmt dst) s"
      by simp_all
    have "st_col s < cw \<and> st_val s = dst_bg dst \<and> store_ok fmt dst w (po - y * row_step fmt dst) s"
      if "s \<in> set (fill_row fmt dst w cw y po 0)" for s
      using fill_row_stores [OF that] True by (auto simp: store_ok_def)
    with ih sts show ?thesis by auto
  qed
qed

lemma frag_stores_ok:
  assumes "s \<in> set (frag_stores fmt f dst w k j y po base)"
  shows "st_col s < int k \<and> 0 \<le> dst_x dst + st_col s
         \<and> (dst_bg dst = 0 \<longrightarrow> st_val s = dst_fg dst)
         \<and> store_ok fmt dst w (po - y * row_step fmt dst) s"
proof -
  from assms obtain r l where r: "r < frag_rows dst j y" and l: "l < k"
    and s: "s \<in> set (pixel_store f dst w base (r * k + l) (y + int r)
                  (po + int r * row_step fmt dst + int l * sizeof_pixel fmt) (int l))"
    by (auto simp: frag_stores_def)
  from r have clip: "dst_h dst = 0 \<or> dst_y dst + (y + int r) < dst_h dst"
    by (auto simp: frag_rows_def split: if_splits)
  from s have "st_col s = int l" "st_row s = y + int r"
    "st_addr s = po + int r * row_step fmt dst + int l * sizeof_pixel fmt"
    "0 \<le> dst_x dst + int l" "w = 0 \<or> dst_x dst + int l < w"
    "dst_bg dst = 0 \<longrightarrow> st_val s = dst_fg dst"
    by (auto simp: pixel_store_def split: if_splits)
  with l clip show ?thesis
    by (simp add: store_ok_def algebra_simps)
qed


lemma frag_width: "push_bit 3 (uint (b AND 0x1F) + 1) = int (8 * (unat (b AND 0x1F) + 1))"
  for b :: "8 word"
  by (simp add: push_bit_eq_mult)

lemma frags_done:
  "\<not> i < uint (f (chr + 1)) \<Longrightarrow> frags fmt f dst w chr i ptr y po = ([], y, po)"
  by (subst frags.simps) simp

lemma frags_skip:
  "i < uint (f (chr + 1)) \<Longrightarrow>
   (f ptr = 255 \<and> f (ptr + 1) = 255) \<or> f (frag_offs f chr ptr) AND 0xE0 \<noteq> 0x80 \<Longrightarrow>
   frags fmt f dst w chr i ptr y po = frags fmt f dst w chr (i + 1) (ptr + ref_size f chr) y po"
  by (subst frags.simps) auto

lemma frags_draw:
  assumes "i < uint (f (chr + 1))" "\<not> (f ptr = 255 \<and> f (ptr + 1) = 255)"
    and "f (frag_offs f chr ptr) AND 0xE0 = 0x80"
    and "(if dst_bg dst \<noteq> 0 then fill fmt dst w (uint (f (chr + 2))) (uint (f (ptr + 1))) y po
          else ([], uint (f (ptr + 1)), po + (uint (f (ptr + 1)) - y) * row_step fmt dst))
         = (sts1, y1, o1)"
    and "frags fmt f dst w chr (i + 1) (ptr + ref_size f chr)
           (y1 + int (frag_rows dst (unat (f (frag_offs f chr ptr + 1)) + 1) y1))
           (o1 + int (frag_rows dst (unat (f (frag_offs f chr ptr + 1)) + 1) y1) * row_step fmt dst)
         = (sts3, y3, o3)"
  shows "frags fmt f dst w chr i ptr y po
         = (sts1 @ frag_stores fmt f dst w (8 * (unat (f (frag_offs f chr ptr) AND 0x1F) + 1))
                     (unat (f (frag_offs f chr ptr + 1)) + 1) y1 o1 (frag_offs f chr ptr + 2)
                 @ sts3, y3, o3)"
  using assms(1-3)
  apply (subst frags.simps)
  apply (simp only: assms(4) draw_fragment_def frag_width blit_closed prod.case assms(5))
  apply simp
  done

lemma frags_stores:
  "frags fmt f dst w chr i ptr y po = (sts, y', po') \<Longrightarrow>
     po' - y' * row_step fmt dst = po - y * row_step fmt dst
     \<and> (\<forall>s \<in> set sts. (dst_bg dst = 0 \<longrightarrow> st_val s = dst_fg dst)
                      \<and> store_ok fmt dst w (po - y * row_step fmt dst) s)"
proof (induction "nat (uint (f (chr + 1)) - i)" arbitrary: i ptr y po sts y' po')
  case 0
  then have "\<not> i < uint (f (chr + 1))" by simp
  with "0.prems" show ?case by (simp add: frags_done)
next
  case (Suc d)
  then have lt: "i < uint (f (chr + 1))" and d: "d = nat (uint (f (chr + 1)) - (i + 1))"
    by simp_all
  let ?frg = "frag_offs f chr ptr"
  show ?case
  proof (cases "(f ptr = 255 \<and> f (ptr + 1) = 255) \<or> f ?frg AND 0xE0 \<noteq> 0x80")
    case True
    from Suc.prems have "frags fmt f dst w chr (i + 1) (ptr + ref_size f chr) y po = (sts, y', po')"
      by (simp add: frags_skip [OF lt True])
    from Suc.hyps(1) [OF d this] show ?thesis .
  next
    case False
    let ?j = "unat (f (?frg + 1)) + 1"
    obtain sts1 y1 o1 where pre:
      "(if dst_bg dst \<noteq> 0 then fill fmt dst w (uint (f (chr + 2))) (uint (f (ptr + 1))) y po
        else ([], uint (f (ptr + 1)), po + (uint (f (ptr + 1)) - y) * row_step fmt dst))
       = (sts1, y1, o1)"
      by (metis prod_cases3)
    let ?R = "int (frag_rows dst ?j y1)"
    obtain sts3 y3 o3 where rest:
      "frags fmt f dst w chr (i + 1) (ptr + ref_size f chr) (y1 + ?R) (o1 + ?R * row_step fmt dst)
       = (sts3, y3, o3)"
      by (metis prod_cases3)
    let ?sts2 = "frag_stores fmt f dst w (8 * (unat (f ?frg AND 0x1F) + 1)) ?j y1 o1 (?frg + 2)"
    from False have "frags fmt f dst w chr i ptr y po = (sts1 @ ?sts2 @ sts3, y3, o3)"
      by (intro frags_draw [OF lt _ _ pre rest]) auto
    with Suc.prems have sts: "sts = sts1 @ ?sts2 @ sts3" and y': "y' = y3" and po': "po' = o3"
      by simp_all
    have base1: "o1 - y1 * row_step fmt dst = po - y * row_step fmt dst"
      and ok1: "\<forall>s \<in> set sts1. (dst_bg dst = 0 \<longrightarrow> st_val s = dst_fg dst)
                  \<and> store_ok fmt dst w (po - y * row_step fmt dst) s"
    proof -
      show "o1 - y1 * row_step fmt dst = po - y * row_step fmt dst"
      proof (cases "dst_bg dst = 0")
        case True
        with pre show ?thesis by (auto simp: algebra_simps)
      next
        case False
        with pre fill_stores show ?thesis by auto
      qed
      show "\<forall>s \<in> set sts1. (dst_bg dst = 0 \<longrightarrow> st_val s = dst_fg dst)
                  \<and> store_ok fmt dst w (po - y * row_step fmt dst) s"
      proof (cases "dst_bg dst = 0")
        case True
        with pre show ?thesis by auto
      next
        case False
        with pre fill_stores [of fmt dst w _ _ y po sts1 y1 o1] show ?thesis by auto
      qed
    qed
    have ok2: "\<forall>s \<in> set ?sts2. (dst_bg dst = 0 \<longrightarrow> st_val s = dst_fg dst)
                  \<and> store_ok fmt dst w (po - y * row_step fmt dst) s"
      using frag_stores_ok [of _ fmt f dst w _ ?j y1 o1] base1 by auto
    have base3: "o1 + ?R * row_step fmt dst - (y1 + ?R) * row_step fmt dst
                 = po - y * row_step fmt dst"
      using base1 by (simp add: algebra_simps)
    from Suc.hyps(1) [OF d rest] base3
    have "o3 - y3 * row_step fmt dst = po - y * row_step fmt dst"
      and "\<forall>s \<in> set sts3. (dst_bg dst = 0 \<longrightarrow> st_val s = dst_fg dst)
                  \<and> store_ok fmt dst w (po - y * row_step fmt dst) s"
      by simp_all
    with ok1 ok2 sts y' po' show ?thesis by auto
  qed
qed

lemma render_stores:
  assumes "s \<in> set (render fmt f dst w chr)"
  shows "(dst_bg dst = 0 \<longrightarrow> st_val s = dst_fg dst)
         \<and> store_ok fmt dst w (dst_y dst * uint (dst_p dst) + dst_x dst * sizeof_pixel fmt) s"
proof -
  let ?po = "dst_y dst * uint (dst_p dst) + dst_x dst * sizeof_pixel fmt"
  obtain sts y po where fr: "frags fmt f dst w chr 0 (chr + 6) 0 ?po = (sts, y, po)"
    by (metis prod_cases3)
  obtain sts' y' po' where fi:
    "fill fmt dst w (uint (f (chr + 2))) (uint (f (chr + 3))) y po = (sts', y', po')"
    by (metis prod_cases3)
  from frags_stores [OF fr]
  have base: "po - y * row_step fmt dst = ?po"
    and ok: "\<forall>s \<in> set sts. (dst_bg dst = 0 \<longrightarrow> st_val s = dst_fg dst) \<and> store_ok fmt dst w ?po s"
    by simp_all
  from fill_stores [OF fi] base
  have ok': "\<forall>s \<in> set sts'. st_val s = dst_bg dst \<and> store_ok fmt dst w ?po s"
    by simp
  from assms fr fi have "s \<in> set sts \<or> (dst_bg dst \<noteq> 0 \<and> s \<in> set sts')"
    by (auto simp: render_def split: if_splits)
  with ok ok' show ?thesis by auto
qed

lemma frags_transparent:
  assumes bg: "dst_bg dst = 0"
  shows "po - y * row_step fmt dst = po0 \<Longrightarrow> i \<le> unat (f (chr + 1)) \<Longrightarrow>
         fst (frags fmt f dst w chr (int i) (frag_ref f chr i) y po)
         = concat (map (\<lambda>i.
             if (f (frag_ref f chr i) = 255 \<and> f (frag_ref f chr i + 1) = 255)
                \<or> f (frag_offs f chr (frag_ref f chr i)) AND 0xE0 \<noteq> 0x80
             then []
             else frag_stores fmt f dst w
                    (8 * (unat (f (frag_offs f chr (frag_ref f chr i)) AND 0x1F) + 1))
                    (unat (f (frag_offs f chr (frag_ref f chr i) + 1)) + 1)
                    (uint (f (frag_ref f chr i + 1)))
                    (po0 + uint (f (frag_ref f chr i + 1)) * row_step fmt dst)
                    (frag_offs f chr (frag_ref f chr i) + 2))
             [i..<unat (f (chr + 1))])"
proof (induction "unat (f (chr + 1)) - i" arbitrary: i y po)
  case 0
  from "0.hyps" "0.prems"(2) have i: "i = unat (f (chr + 1))" by linarith
  then have "\<not> int i < uint (f (chr + 1))" by simp
  then show ?case using i by (simp add: frags_done)
next
  case (Suc d)
  from Suc.hyps(2)
  have lt': "i < unat (f (chr + 1))" and d: "d = unat (f (chr + 1)) - Suc i"
    and le: "Suc i \<le> unat (f (chr + 1))"
    by linarith+
  from lt' have "int i < int (unat (f (chr + 1)))" by (simp only: of_nat_less_iff)
  then have lt: "int i < uint (f (chr + 1))" by simp
  have nxt: "int i + 1 = int (Suc i)" "frag_ref f chr i + ref_size f chr = frag_ref f chr (Suc i)"
    by (simp_all add: frag_ref_def algebra_simps)
  let ?ptr = "frag_ref f chr i"
  let ?frg = "frag_offs f chr ?ptr"
  show ?case
  proof (cases "(f ?ptr = 255 \<and> f (?ptr + 1) = 255) \<or> f ?frg AND 0xE0 \<noteq> 0x80")
    case True
    then show ?thesis
      using Suc.hyps(1) [OF d Suc.prems(1) le]
      by (simp add: frags_skip [OF lt True] nxt upt_conv_Cons [OF lt'])
  next
    case False
    let ?y1 = "uint (f (?ptr + 1))"
    let ?o1 = "po + (?y1 - y) * row_step fmt dst"
    let ?j = "unat (f (?frg + 1)) + 1"
    let ?R = "int (frag_rows dst ?j ?y1)"
    have o1: "?o1 = po0 + ?y1 * row_step fmt dst"
      using Suc.prems(1) by (simp add: algebra_simps)
    have base: "?o1 + ?R * row_step fmt dst - (?y1 + ?R) * row_step fmt dst = po0"
      using Suc.prems(1) by (simp add: algebra_simps)
    obtain sts3 y3 o3 where rest:
      "frags fmt f dst w chr (int i + 1) (?ptr + ref_size f chr) (?y1 + ?R)
          (?o1 + ?R * row_step fmt dst) = (sts3, y3, o3)"
      by (metis prod_cases3)
    from False bg
    have "frags fmt f dst w chr (int i) ?ptr y po
          = ([] @ frag_stores fmt f dst w (8 * (unat (f ?frg AND 0x1F) + 1)) ?j ?y1 ?o1 (?frg + 2)
               @ sts3, y3, o3)"
      by (intro frags_draw [OF lt _ _ _ rest]) auto
    moreover from Suc.hyps(1) [OF d base le] rest
    have "sts3 = concat (map (\<lambda>i.
             if (f (frag_ref f chr i) = 255 \<and> f (frag_ref f chr i + 1) = 255)
                \<or> f (frag_offs f chr (frag_ref f chr i)) AND 0xE0 \<noteq> 0x80
             then []
             else frag_stores fmt f dst w
                    (8 * (unat (f (frag_offs f chr (frag_ref f chr i)) AND 0x1F) + 1))
                    (unat (f (frag_offs f chr (frag_ref f chr i) + 1)) + 1)
                    (uint (f (frag_ref f chr i + 1)))
                    (po0 + uint (f (frag_ref f chr i + 1)) * row_step fmt dst)
                    (frag_offs f chr (frag_ref f chr i) + 2))
             [Suc i..<unat (f (chr + 1))])"
      by (simp add: nxt)
    ultimately show ?thesis
      using False by (auto simp: upt_conv_Cons [OF lt'] o1)
  qed
qed

lemma frag_stores_transparent:
  assumes "dst_bg dst = 0"
  shows "frag_stores fmt f dst w k j y po base = fg_pixels fmt f dst w k j y po base"
proof -
  have "pixel_store f dst w base n y' p l
        = (if 0 \<le> dst_x dst + l \<and> (w = 0 \<or> dst_x dst + l < w) \<and> payload_bit f base n
           then [\<lparr>st_addr = p, st_row = y', st_col = l, st_val = dst_fg dst\<rparr>] else [])"
    for n y' p l
    using assms by (auto simp: pixel_store_def)
  then show ?thesis
    by (simp only: frag_stores_def fg_pixels_def)
qed

lemma render_transparent:
  assumes "dst_bg dst = 0"
  shows "render fmt f dst w chr = glyph_fg fmt f dst w chr"
proof -
  let ?po = "dst_y dst * uint (dst_p dst) + dst_x dst * sizeof_pixel fmt"
  have "frag_ref f chr 0 = chr + 6"
    by (simp add: frag_ref_def)
  with frags_transparent [OF assms, of ?po 0 fmt ?po 0 f chr w]
  have "fst (frags fmt f dst w chr 0 (chr + 6) 0 ?po) = glyph_fg fmt f dst w chr"
    by (simp add: glyph_fg_def frag_stores_transparent [OF assms] cong: if_cong)
  moreover obtain sts y po where "frags fmt f dst w chr 0 (chr + 6) 0 ?po = (sts, y, po)"
    by (metis prod_cases3)
  ultimately show ?thesis
    using assms by (simp add: render_def)
qed

lemma poke_other:
  "\<not> (st_addr s \<le> a \<and> a < st_addr s + sizeof_pixel fmt) \<Longrightarrow> poke fmt mem s a = mem a"
  by (auto simp: poke_def)

lemma pokes_other:
  "\<forall>s \<in> set sts. \<not> (st_addr s \<le> a \<and> a < st_addr s + sizeof_pixel fmt) \<Longrightarrow>
   foldl (poke fmt) mem sts a = mem a"
  by (induction sts arbitrary: mem) (simp_all add: poke_other)

lemma frag_stores_opaque:
  assumes "dst_bg dst \<noteq> 0" "0 \<le> dst_x dst" "w = 0 \<or> dst_x dst + int k \<le> w"
  shows "map (\<lambda>s. (st_row s, st_col s)) (frag_stores fmt f dst w k j y po base)
         = concat (map (\<lambda>r. map (\<lambda>l. (y + int r, int l)) [0..<k]) [0..<frag_rows dst j y])"
proof -
  have one: "map (\<lambda>s. (st_row s, st_col s)) (pixel_store f dst w base n y' p (int l))
             = [(y', int l)]" if "l < k" for n y' p l
    using assms that by (auto simp: pixel_store_def)
  have row: "concat (map (\<lambda>l. map (\<lambda>s. (st_row s, st_col s))
                              (pixel_store f dst w base (n l) y' (p l) (int l))) [0..<k])
             = map (\<lambda>l. (y', int l)) [0..<k]" for n y' p
  proof -
    have "concat (map (\<lambda>l. map (\<lambda>s. (st_row s, st_col s))
                              (pixel_store f dst w base (n l) y' (p l) (int l))) [0..<k])
          = concat (map (\<lambda>l. [(y', int l)]) [0..<k])"
      by (rule arg_cong [where f = concat], rule map_cong) (simp_all add: one)
    then show ?thesis by (simp add: concat_map_singleton)
  qed
  show ?thesis
    unfolding frag_stores_def map_concat map_map comp_def row ..
qed

lemma control_keeps:
  assumes "control f unicode chr w dst = Inr d"
  shows "dst_bg d = dst_bg dst"
  using assms
  by (auto simp: control_def advance_cursor_def scroll_def Let_def
      split: if_splits option.splits sum.splits)

lemma draw_fragment_stores:
  "fst (draw_fragment fmt f dst w frg y po)
   = frag_stores fmt f dst w (8 * (unat (f frg AND 0x1F) + 1)) (unat (f (frg + 1)) + 1)
       y po (frg + 2)"
  by (simp only: draw_fragment_def frag_width blit_closed fst_conv)

text \<open>Every store of the fragment loop comes either from a background row of lines
  304-307, bounded by \<^verbatim>\<open>chr[2]\<close>, or from the rows of one of the bitmap fragments.\<close>

lemma frags_kinds:
  "po - y * row_step fmt dst = po0 \<Longrightarrow> i \<le> unat (f (chr + 1)) \<Longrightarrow>
   s \<in> set (fst (frags fmt f dst w chr (int i) (frag_ref f chr i) y po)) \<Longrightarrow>
   (dst_bg dst \<noteq> 0 \<and> st_val s = dst_bg dst \<and> st_col s < uint (f (chr + 2)))
   \<or> (\<exists>n y'. n < unat (f (chr + 1))
          \<and> \<not> (f (frag_ref f chr n) = 255 \<and> f (frag_ref f chr n + 1) = 255)
          \<and> f (frag_offs f chr (frag_ref f chr n)) AND 0xE0 = 0x80
          \<and> s \<in> set (fst (draw_fragment fmt f dst w (frag_offs f chr (frag_ref f chr n)) y'
                             (po0 + y' * row_step fmt dst))))"
proof (induction "unat (f (chr + 1)) - i" arbitrary: i y po)
  case 0
  from "0.hyps" "0.prems"(2) have i: "i = unat (f (chr + 1))" by linarith
  then have "\<not> int i < uint (f (chr + 1))" by simp
  with "0.prems"(3) show ?case by (simp add: frags_done)
next
  case (Suc d)
  from Suc.hyps(2)
  have lt': "i < unat (f (chr + 1))" and d: "d = unat (f (chr + 1)) - Suc i"
    and le: "Suc i \<le> unat (f (chr + 1))"
    by linarith+
  from lt' have "int i < int (unat (f (chr + 1)))" by (simp only: of_nat_less_iff)
  then have lt: "int i < uint (f (chr + 1))" by simp
  have nxt: "int i + 1 = int (Suc i)" "frag_ref f chr i + ref_size f chr = frag_ref f chr (Suc i)"
    by (simp_all add: frag_ref_def algebra_simps)
  let ?ptr = "frag_ref f chr i"
  let ?frg = "frag_offs f chr ?ptr"
  show ?case
  proof (cases "(f ?ptr = 255 \<and> f (?ptr + 1) = 255) \<or> f ?frg AND 0xE0 \<noteq> 0x80")
    case True
    from Suc.prems(3)
    have "s \<in> set (fst (frags fmt f dst w chr (int (Suc i)) (frag_ref f chr (Suc i)) y po))"
      by (simp add: frags_skip [OF lt True] nxt)
    from Suc.hyps(1) [OF d Suc.prems(1) le this] show ?thesis .
  next
    case False
    let ?j = "unat (f (?frg + 1)) + 1"
    obtain sts1 y1 o1 where pre:
      "(if dst_bg dst \<noteq> 0 then fill fmt dst w (uint (f (chr + 2))) (uint (f (?ptr + 1))) y po
        else ([], uint (f (?ptr + 1)), po + (uint (f (?ptr + 1)) - y) * row_step fmt dst))
       = (sts1, y1, o1)"
      by (metis prod_cases3)
    let ?R = "int (frag_rows dst ?j y1)"
    obtain sts3 y3 o3 where rest:
      "frags fmt f dst w chr (int i + 1) (?ptr + ref_size f chr) (y1 + ?R)
         (o1 + ?R * row_step fmt dst) = (sts3, y3, o3)"
      by (metis prod_cases3)
    let ?sts2 = "frag_stores fmt f dst w (8 * (unat (f ?frg AND 0x1F) + 1)) ?j y1 o1 (?frg + 2)"
    from False have "frags fmt f dst w chr (int i) ?ptr y po = (sts1 @ ?sts2 @ sts3, y3, o3)"
      by (intro frags_draw [OF lt _ _ pre rest]) auto
    with Suc.prems(3) consider "s \<in> set sts1" | "s \<in> set ?sts2" | "s \<in> set sts3"
      by auto
    moreover
    have base1: "o1 - y1 * row_step fmt dst = po0"
      and ok1: "\<forall>s \<in> set sts1. dst_bg dst \<noteq> 0 \<and> st_val s = dst_bg dst
                                \<and> st_col s < uint (f (chr + 2))"
    proof -
      show "o1 - y1 * row_step fmt dst = po0"
      proof (cases "dst_bg dst = 0")
        case True
        with pre Suc.prems(1) show ?thesis by (auto simp: algebra_simps)
      next
        case False
        with pre fill_stores Suc.prems(1) show ?thesis by auto
      qed
      show "\<forall>s \<in> set sts1. dst_bg dst \<noteq> 0 \<and> st_val s = dst_bg dst
                                \<and> st_col s < uint (f (chr + 2))"
      proof (cases "dst_bg dst = 0")
        case True
        with pre show ?thesis by auto
      next
        case False
        with pre fill_stores [of fmt dst w "uint (f (chr + 2))" _ y po sts1 y1 o1]
        show ?thesis by auto
      qed
    qed
    moreover have o1: "o1 = po0 + y1 * row_step fmt dst"
      using base1 by simp
    moreover have base3: "o1 + ?R * row_step fmt dst - (y1 + ?R) * row_step fmt dst = po0"
      using base1 by (simp add: algebra_simps)
    ultimately show ?thesis
    proof cases
      case 1
      with ok1 show ?thesis by blast
    next
      case 2
      then have "s \<in> set (fst (draw_fragment fmt f dst w ?frg y1 (po0 + y1 * row_step fmt dst)))"
        by (simp only: draw_fragment_stores o1)
      with False lt' show ?thesis by blast
    next
      case 3
      with rest
      have "s \<in> set (fst (frags fmt f dst w chr (int (Suc i)) (frag_ref f chr (Suc i))
                            (y1 + ?R) (o1 + ?R * row_step fmt dst)))"
        by (simp add: nxt)
      from Suc.hyps(1) [OF d base3 le this] show ?thesis .
    qed
  qed
qed

lemma render_kinds:
  assumes "s \<in> set (render fmt f dst w chr)"
  shows "(dst_bg dst \<noteq> 0 \<and> st_val s = dst_bg dst \<and> st_col s < uint (f (chr + 2)))
   \<or> (\<exists>n y'. n < unat (f (chr + 1))
          \<and> \<not> (f (frag_ref f chr n) = 255 \<and> f (frag_ref f chr n + 1) = 255)
          \<and> f (frag_offs f chr (frag_ref f chr n)) AND 0xE0 = 0x80
          \<and> s \<in> set (fst (draw_fragment fmt f dst w (frag_offs f chr (frag_ref f chr n)) y'
                             (dst_y dst * uint (dst_p dst) + dst_x dst * sizeof_pixel fmt
                                + y' * row_step fmt dst))))"
proof -
  let ?po = "dst_y dst * uint (dst_p dst) + dst_x dst * sizeof_pixel fmt"
  obtain sts y po where fr: "frags fmt f dst w chr 0 (chr + 6) 0 ?po = (sts, y, po)"
    by (metis prod_cases3)
  obtain sts' y' po' where fi:
    "fill fmt dst w (uint (f (chr + 2))) (uint (f (chr + 3))) y po = (sts', y', po')"
    by (metis prod_cases3)
  from assms fr fi consider "s \<in> set sts" | "dst_bg dst \<noteq> 0" "s \<in> set sts'"
    by (auto simp: render_def split: if_splits)
  then show ?thesis
  proof cases
    case 1
    have "frag_ref f chr 0 = chr + 6" by (simp add: frag_ref_def)
    with 1 fr have "s \<in> set (fst (frags fmt f dst w chr (int 0) (frag_ref f chr 0) 0 ?po))"
      by simp
    from frags_kinds [OF _ _ this, of ?po] show ?thesis by simp
  next
    case 2
    with fill_stores [OF fi] show ?thesis by auto
  qed
qed

section \<open>The claims\<close>

subsection \<open>C1: unpacking the bits of a fragment\<close>

text \<open>
  C1, as the code has it. The rows of a bitmap fragment are unpacked least significant
  bit first: pixel \<open>l\<close> of row \<open>r\<close> reads bit \<open>l mod 8\<close>, counted from the least
  significant, of payload byte \<open>r * (k div 8) + l div 8\<close>, so the least significant bit of
  a byte is the leftmost of its 8 pixels. For a pixel inside the horizontal bounds
  (\<^verbatim>\<open>ssfn_dst.x + l >= 0\<close>, and below the width when that is nonzero) a set bit stores
  the foreground colour, a clear bit stores the background colour when that is nonzero
  and stores nothing when it is 0; a pixel outside the bounds is not stored. The stores
  of a fragment are those of its rows in order, for the rows above the destination
  height.
\<close>

theorem fragment_bits_lsb_first:
  "fst (draw_fragment fmt f dst w frg y po)
   = concat (map (\<lambda>r. concat (map (\<lambda>l.
       if 0 \<le> dst_x dst + int l \<and> (w = 0 \<or> dst_x dst + int l < w) then
         (if bit (f (frg + 2 + int (r * (unat (f frg AND 0x1F) + 1) + l div 8))) (l mod 8) then
            [\<lparr>st_addr = po + int r * row_step fmt dst + int l * sizeof_pixel fmt,
              st_row = y + int r, st_col = int l, st_val = dst_fg dst\<rparr>]
          else if dst_bg dst \<noteq> 0 then
            [\<lparr>st_addr = po + int r * row_step fmt dst + int l * sizeof_pixel fmt,
              st_row = y + int r, st_col = int l, st_val = dst_bg dst\<rparr>]
          else [])
       else [])
       [0..<8 * (unat (f frg AND 0x1F) + 1)]))
     [0..<frag_rows dst (unat (f (frg + 1)) + 1) y])"
  (is "_ = ?rhs")
proof -
  have "(r * (8 * n) + l) div 8 = r * n + l div 8" "(r * (8 * n) + l) mod 8 = l mod 8"
    for r n l :: nat
    by (simp_all add: mult.left_commute [of r 8 n])
  note dm = this
  have "fst (draw_fragment fmt f dst w frg y po)
        = frag_stores fmt f dst w (8 * (unat (f frg AND 0x1F) + 1)) (unat (f (frg + 1)) + 1)
            y po (frg + 2)"
    by (simp only: draw_fragment_def frag_width blit_closed fst_conv)
  also have "\<dots> = ?rhs"
    unfolding frag_stores_def pixel_store_def payload_bit_def
    by (simp only: dm)
  finally show ?thesis .
qed

text \<open>The two rows \<^verbatim>\<open>80\<close> and \<^verbatim>\<open>01\<close> of the fragment of the letter A, on a
  transparent background.\<close>

theorem fragment_bits_lsb_first_witness:
  "fst (draw_fragment TRUECOLOR font_A (screen 16 16) 16 62 0 0)
   = [\<lparr>st_addr = 28, st_row = 0, st_col = 7, st_val = 0xFFFFFFFF\<rparr>,
      \<lparr>st_addr = 64, st_row = 1, st_col = 0, st_val = 0xFFFFFFFF\<rparr>]"
  unfolding fragment_bits_lsb_first
  by code_simp

text \<open>The payload byte \<^verbatim>\<open>80\<close>, whose only set bit is the most significant one, paints
  column 7, the rightmost of its 8 pixels, and the byte \<^verbatim>\<open>01\<close> paints column 0. After
  the call the first pixel of row 0 (from byte 0) is untouched and its eighth pixel (from
  byte 28) is white.\<close>

theorem fragment_bits_lsb_first_counterexample:
  "font_A 64 = 0x80 \<and> font_A 65 = 0x01
   \<and> fst (draw_fragment TRUECOLOR font_A (screen 16 16) 16 62 0 0)
      = [\<lparr>st_addr = 28, st_row = 0, st_col = 7, st_val = 0xFFFFFFFF\<rparr>,
         \<lparr>st_addr = 64, st_row = 1, st_col = 0, st_val = 0xFFFFFFFF\<rparr>]
   \<and> render TRUECOLOR font_A (screen 16 16) 16 34
      = [\<lparr>st_addr = 28, st_row = 0, st_col = 7, st_val = 0xFFFFFFFF\<rparr>,
         \<lparr>st_addr = 64, st_row = 1, st_col = 0, st_val = 0xFFFFFFFF\<rparr>]
   \<and> the (dst_ptr (snd (projr (ssfn_putc with_control (Some font_A) (screen 16 16) 0x41)))) 0
      = ramp 0
   \<and> the (dst_ptr (snd (projr (ssfn_putc with_control (Some font_A) (screen 16 16) 0x41)))) 28
      = 0xFF"
  by code_simp

subsection \<open>C2: a code point with no record\<close>

text \<open>
  C2, as the code has it. Let the inputs be valid and the character table hold no record
  for the code point. Compiled without the control block, \<^verbatim>\<open>ssfn_putc\<close> returns
  \<^verbatim>\<open>SSFN_ERR_NOGLYPH\<close> and leaves the buffer and the cursor as they were. Compiled with
  the control block (font height nonzero), for a code point other than carriage return
  and newline it returns \<^verbatim>\<open>SSFN_ERR_NOGLYPH\<close> too, and the destination is as it was
  unless the scroll test of lines 289-293 fires (\<open>0 < j < y\<close> for
  \<^verbatim>\<open>j = h - height - h % height\<close>), in which case the buffer is scrolled and \<open>y\<close> is set
  to \<open>j\<close> before the return; the cursor \<open>x\<close> is never changed.
\<close>

theorem putc_glyph_not_found:
  assumes "magic_ok f" "dst_ptr dst \<noteq> None" "dst_p dst \<noteq> 0"
    and "scan f unicode (characters_offs f) 0 = None"
  shows "(\<not> cfg_control cfg \<longrightarrow>
            ssfn_putc cfg (Some f) dst unicode = Inr (SSFN_ERR_NOGLYPH, dst))
       \<and> (cfg_control cfg \<and> font_height f \<noteq> 0 \<and> unicode \<noteq> 10 \<and> unicode \<noteq> 13 \<longrightarrow>
            ssfn_putc cfg (Some f) dst unicode
              = Inr (SSFN_ERR_NOGLYPH,
                     if 0 < dst_h dst - font_height f - dst_h dst smod font_height f
                        \<and> dst_h dst - font_height f - dst_h dst smod font_height f < dst_y dst
                     then scroll (font_height f)
                            (dst_h dst - font_height f - dst_h dst smod font_height f) dst
                     else dst))"
proof -
  from assms(2) obtain mem where mem: "dst_ptr dst = Some mem"
    by auto
  show ?thesis
  proof (cases "cfg_control cfg")
    case False
    with assms mem show ?thesis
      by (simp add: ssfn_putc_def draw_def)
  next
    case True
    with assms mem show ?thesis
      by (simp add: ssfn_putc_def control_def advance_cursor_def draw_def scroll_def Let_def)
  qed
qed

text \<open>The letter A in a font whose table is only skip markers.\<close>

theorem putc_glyph_not_found_witness:
  "ssfn_putc with_control (Some font_empty) (screen 16 32) 0x41
     = Inr (SSFN_ERR_NOGLYPH, screen 16 32)
   \<and> ssfn_putc (with_control\<lparr>cfg_control := False\<rparr>) (Some font_empty) (screen 16 32) 10
     = Inr (SSFN_ERR_NOGLYPH, screen 16 32)"
  using putc_glyph_not_found [where f = font_empty and dst = "screen 16 32"
      and cfg = with_control and unicode = "0x41"]
    putc_glyph_not_found [where f = font_empty and dst = "screen 16 32"
      and cfg = "with_control\<lparr>cfg_control := False\<rparr>" and unicode = "10"]
  by (simp add: font_empty_facts with_control_def screen_def)

text \<open>With the control block, a newline that has no record returns \<^verbatim>\<open>SSFN_OK\<close> and moves
  the cursor; and a letter with no record, with the cursor below the last line, scrolls
  the buffer and moves the cursor from 40 to 16 before \<^verbatim>\<open>SSFN_ERR_NOGLYPH\<close> is returned.\<close>

theorem putc_glyph_not_found_counterexample:
  "scan font_empty 10 (characters_offs font_empty) 0 = None
   \<and> ssfn_putc with_control (Some font_empty) (screen 16 32) 10
       = Inr (SSFN_OK, (screen 16 32)\<lparr>dst_y := 16\<rparr>)
   \<and> scan font_empty 0x41 (characters_offs font_empty) 0 = None
   \<and> ssfn_putc with_control (Some font_empty) ((screen 16 32)\<lparr>dst_y := 40\<rparr>) 0x41
       = Inr (SSFN_ERR_NOGLYPH, scroll 16 16 ((screen 16 32)\<lparr>dst_y := 40\<rparr>))
   \<and> dst_y (scroll 16 16 ((screen 16 32)\<lparr>dst_y := 40\<rparr>)) = 16"
  by (simp add: putc_defs font_empty_facts with_control_def screen_def)

subsection \<open>C3: scrolling\<close>

text \<open>
  C3, as the code has it. Let \<open>j\<close> be \<^verbatim>\<open>ssfn_dst.h - height - ssfn_dst.h % height\<close> for
  the font's cell height (line 283). On every call in which, after the cursor advance of
  lines 284-288, the cursor \<open>y\<close> exceeds \<open>j\<close> and \<open>j\<close> is positive, the control block
  sets \<open>y\<close> to \<open>j\<close> and overwrites the first \<open>j\<close> rows of the buffer (the bytes below
  \<open>j * pitch\<close>) with the bytes one cell height further down; every other byte of the
  buffer keeps its value. The threshold is \<open>j\<close>, not the height minus one cell height,
  and nothing is scrolled when \<open>j\<close> is not positive.
\<close>

theorem control_scroll:
  assumes "font_height f \<noteq> 0"
    and "advance_cursor f unicode chr w (font_height f) dst = Inr d"
    and "dst_ptr dst = Some mem"
    and "0 < dst_h dst - font_height f - dst_h dst smod font_height f"
    and "dst_h dst - font_height f - dst_h dst smod font_height f < dst_y d"
  shows "control f unicode chr w dst
         = Inr (d\<lparr>dst_y := dst_h dst - font_height f - dst_h dst smod font_height f,
                  dst_ptr := Some (\<lambda>a.
                    if 0 \<le> a \<and> a < (dst_h dst - font_height f - dst_h dst smod font_height f)
                                      * uint (dst_p dst)
                    then mem (a + font_height f * uint (dst_p dst)) else mem a)\<rparr>)"
proof -
  have same: "dst_ptr d = dst_ptr dst" "dst_p d = dst_p dst"
    using assms(2) by (auto simp: advance_cursor_def split: option.splits if_splits sum.splits)
  have "0 \<le> font_height f"
    by (simp add: font_height_def)
  then have "scroll_rows (uint (dst_p dst)) (font_height f)
               (dst_h dst - font_height f - dst_h dst smod font_height f) mem
             = (\<lambda>a. if 0 \<le> a \<and> a < (dst_h dst - font_height f - dst_h dst smod font_height f)
                                      * uint (dst_p dst)
                    then mem (a + font_height f * uint (dst_p dst)) else mem a)"
    using assms(4) by (intro scroll_rows_eq) simp_all
  with assms same show ?thesis
    by (simp add: control_def scroll_def Let_def)
qed

text \<open>A newline on the last line of a 48 rows high buffer, with a 16 rows high font.\<close>

theorem control_scroll_witness:
  "control font_empty 10 None 16 ((screen 16 48)\<lparr>dst_y := 32\<rparr>)
     = Inr ((screen 16 48)\<lparr>dst_y := 32,
              dst_ptr := Some (\<lambda>a. if 0 \<le> a \<and> a < 2048 then ramp (a + 1024) else ramp a)\<rparr>)"
  using control_scroll [where f = font_empty and unicode = 10 and chr = None and w = 16
      and dst = "(screen 16 48)\<lparr>dst_y := 32\<rparr>" and d = "(screen 16 48)\<lparr>dst_y := 48\<rparr>"
      and mem = ramp]
  by (simp add: font_empty_facts screen_def advance_cursor_def cong: if_cong)

text \<open>A newline in a buffer of 24 rows with a font of 16 rows: after the advance \<open>y\<close> is
  16, beyond the height minus one cell height, which is 8; but \<open>j\<close> is 0, and the buffer
  is not shifted nor \<open>y\<close> clamped.\<close>

theorem control_scroll_counterexample:
  "dst_h (screen 16 24) \<noteq> 0
   \<and> advance_cursor font_empty 10 None 16 (font_height font_empty) (screen 16 24)
       = Inr ((screen 16 24)\<lparr>dst_y := 16\<rparr>)
   \<and> dst_y ((screen 16 24)\<lparr>dst_y := 16\<rparr>) > dst_h (screen 16 24) - font_height font_empty
   \<and> control font_empty 10 None 16 (screen 16 24) = Inr ((screen 16 24)\<lparr>dst_y := 16\<rparr>)
   \<and> ssfn_putc with_control (Some font_empty) (screen 16 24) 10
       = Inr (SSFN_OK, (screen 16 24)\<lparr>dst_y := 16\<rparr>)"
  by (simp add: putc_defs font_empty_facts with_control_def screen_def)

subsection \<open>C4: clipping\<close>

text \<open>
  C4, as the code has it. Every store of a rendered glyph is at a column \<open>l\<close> (counted
  from the cursor) with \<^verbatim>\<open>ssfn_dst.x + l\<close> strictly below the destination width when
  that is nonzero, at a row above the destination height when that is nonzero, and its
  address is that of this row and column; no store occurs at or past the declared
  width. Every store of the glyph whose record is at \<open>chr\<close> is either a store of the
  background colour by a background row (lines 304-307 and 320-323), at a column below
  the cell width \<^verbatim>\<open>chr[2]\<close> of the record, or a store of the rows of one of the
  glyph's bitmap fragments. The rows of a fragment store at columns below the fragment's
  own row width \<^verbatim>\<open>((frg[0] & 0x1F) + 1) * 8\<close>, with \<^verbatim>\<open>ssfn_dst.x + l\<close> not negative:
  they are not clipped against the cell width. (The background rows do not test
  \<^verbatim>\<open>ssfn_dst.x + j\<close> from below.)
\<close>

theorem stores_clipped:
  "(\<forall>s \<in> set (render fmt f dst w chr).
       0 \<le> st_col s \<and> (w \<noteq> 0 \<longrightarrow> dst_x dst + st_col s < w)
       \<and> (dst_h dst \<noteq> 0 \<longrightarrow> dst_y dst + st_row s < dst_h dst)
       \<and> st_addr s = dst_y dst * uint (dst_p dst) + dst_x dst * sizeof_pixel fmt
                      + st_row s * row_step fmt dst + st_col s * sizeof_pixel fmt)
   \<and> (\<forall>s \<in> set (render fmt f dst w chr).
         (dst_bg dst \<noteq> 0 \<and> st_val s = dst_bg dst \<and> st_col s < uint (f (chr + 2)))
         \<or> (\<exists>n y'. n < unat (f (chr + 1))
                \<and> \<not> (f (frag_ref f chr n) = 255 \<and> f (frag_ref f chr n + 1) = 255)
                \<and> f (frag_offs f chr (frag_ref f chr n)) AND 0xE0 = 0x80
                \<and> s \<in> set (fst (draw_fragment fmt f dst w
                                    (frag_offs f chr (frag_ref f chr n)) y'
                                    (dst_y dst * uint (dst_p dst) + dst_x dst * sizeof_pixel fmt
                                       + y' * row_step fmt dst)))))
   \<and> (\<forall>s \<in> set (fst (draw_fragment fmt f dst w frg y po)).
         st_col s < 8 * (uint (f frg AND 0x1F) + 1) \<and> 0 \<le> dst_x dst + st_col s)"
proof -
  have "0 \<le> st_col s \<and> (w \<noteq> 0 \<longrightarrow> dst_x dst + st_col s < w)
       \<and> (dst_h dst \<noteq> 0 \<longrightarrow> dst_y dst + st_row s < dst_h dst)
       \<and> st_addr s = dst_y dst * uint (dst_p dst) + dst_x dst * sizeof_pixel fmt
                      + st_row s * row_step fmt dst + st_col s * sizeof_pixel fmt"
    if "s \<in> set (render fmt f dst w chr)" for s
    using render_stores [OF that] by (auto simp: store_ok_def)
  moreover have "st_col s < 8 * (uint (f frg AND 0x1F) + 1) \<and> 0 \<le> dst_x dst + st_col s"
    if s: "s \<in> set (fst (draw_fragment fmt f dst w frg y po))" for s
  proof -
    from s have "s \<in> set (frag_stores fmt f dst w (8 * (unat (f frg AND 0x1F) + 1))
                        (unat (f (frg + 1)) + 1) y po (frg + 2))"
      by (simp only: draw_fragment_stores)
    from frag_stores_ok [OF this]
    have "st_col s < int (8 * (unat (f frg AND 0x1F) + 1))" "0 \<le> dst_x dst + st_col s"
      by simp_all
    then show ?thesis
      by simp
  qed
  ultimately show ?thesis
    using render_kinds [of _ fmt f dst w chr] by blast
qed

text \<open>On an opaque background: the space, a glyph with no fragment, stores its two
  background rows over the 4 columns of its cell; the letter A of \<open>font_B\<close> stores a
  background row of 4 columns above and below its fragment row of 8 columns. And the
  letter A of \<open>font_A\<close> on a destination 6 pixels wide: the pixel of column 7 is
  clipped.\<close>

theorem stores_clipped_witness:
  "map (\<lambda>s. (st_row s, st_col s, st_val s)) (render TRUECOLOR font_sp opaque 16 33)
     = [(0, 0, 1), (0, 1, 1), (0, 2, 1), (0, 3, 1), (1, 0, 1), (1, 1, 1), (1, 2, 1), (1, 3, 1)]
   \<and> uint (font_sp (33 + 2)) = 4
   \<and> list_all (\<lambda>s. st_col s < uint (font_sp (33 + 2))) (render TRUECOLOR font_sp opaque 16 33)
   \<and> map (\<lambda>s. (st_row s, st_col s, st_val s)) (render TRUECOLOR font_B opaque 16 34)
     = [(0, 0, 1), (0, 1, 1), (0, 2, 1), (0, 3, 1),
        (1, 0, 0xFFFFFFFF), (1, 1, 1), (1, 2, 1), (1, 3, 1), (1, 4, 1), (1, 5, 1), (1, 6, 1),
        (1, 7, 1),
        (2, 0, 1), (2, 1, 1), (2, 2, 1), (2, 3, 1)]
   \<and> render TRUECOLOR font_A (screen 6 16) 6 34
     = [\<lparr>st_addr = 64, st_row = 1, st_col = 0, st_val = 0xFFFFFFFF\<rparr>]
   \<and> list_all (\<lambda>s. dst_x (screen 6 16) + st_col s < 6) (render TRUECOLOR font_A (screen 6 16) 6 34)
   \<and> list_all (\<lambda>s. st_col s < 8)
        (fst (draw_fragment TRUECOLOR font_A (screen 6 16) 6 62 0 0))"
proof -
  have sp: "map (\<lambda>s. (st_row s, st_col s, st_val s)) (render TRUECOLOR font_sp opaque 16 33)
     = [(0, 0, 1), (0, 1, 1), (0, 2, 1), (0, 3, 1), (1, 0, 1), (1, 1, 1), (1, 2, 1), (1, 3, 1)]"
    by code_simp
  have B: "map (\<lambda>s. (st_row s, st_col s, st_val s)) (render TRUECOLOR font_B opaque 16 34)
     = [(0, 0, 1), (0, 1, 1), (0, 2, 1), (0, 3, 1),
        (1, 0, 0xFFFFFFFF), (1, 1, 1), (1, 2, 1), (1, 3, 1), (1, 4, 1), (1, 5, 1), (1, 6, 1),
        (1, 7, 1),
        (2, 0, 1), (2, 1, 1), (2, 2, 1), (2, 3, 1)]"
    by code_simp
  have r: "render TRUECOLOR font_A (screen 6 16) 6 34
           = [\<lparr>st_addr = 64, st_row = 1, st_col = 0, st_val = 0xFFFFFFFF\<rparr>]"
    by code_simp
  have b: "font_A 62 AND 0x1F = 0"
    by (simp add: font_A_def glyph_A_def font_defs)
  have n: "unat (font_sp (33 + 1)) = 0" "uint (font_sp (33 + 2)) = 4"
    by (simp_all add: font_sp_facts)
  from stores_clipped [where fmt = TRUECOLOR and f = font_sp and dst = opaque and w = 16
      and chr = 33]
  have "\<forall>s \<in> set (render TRUECOLOR font_sp opaque 16 33). st_col s < uint (font_sp (33 + 2))"
    unfolding n by blast
  moreover
  from stores_clipped [where fmt = TRUECOLOR and f = font_A and dst = "screen 6 16" and w = 6
      and chr = 34 and frg = 62 and y = 0 and po = 0]
  have "(\<forall>s \<in> set (render TRUECOLOR font_A (screen 6 16) 6 34). dst_x (screen 6 16) + st_col s < 6)
        \<and> (\<forall>s \<in> set (fst (draw_fragment TRUECOLOR font_A (screen 6 16) 6 62 0 0)). st_col s < 8)"
    by (simp add: b)
  ultimately show ?thesis
    by (simp add: sp B r n font_sp_facts list_all_iff)
qed

text \<open>The cell of the letter A is 4 pixels wide and its fragment paints column 7. With an
  opaque background the two rows of the fragment are stored over all their 8 columns,
  set bit or not.\<close>

theorem stores_clipped_counterexample:
  "uint (font_A (34 + 2)) = 4
   \<and> render TRUECOLOR font_A (screen 16 16) 16 34
      = [\<lparr>st_addr = 28, st_row = 0, st_col = 7, st_val = 0xFFFFFFFF\<rparr>,
         \<lparr>st_addr = 64, st_row = 1, st_col = 0, st_val = 0xFFFFFFFF\<rparr>]
   \<and> \<not> st_col \<lparr>st_addr = 28, st_row = 0, st_col = 7, st_val = 0xFFFFFFFF\<rparr>
         < uint (font_A (34 + 2))
   \<and> map st_col (render TRUECOLOR font_A ((screen 16 16)\<lparr>dst_bg := 1\<rparr>) 16 34)
      = [0, 1, 2, 3, 4, 5, 6, 7, 0, 1, 2, 3, 4, 5, 6, 7]"
  by code_simp

subsection \<open>C5: the two-byte skip marker\<close>

text \<open>
  C5, as the code has it. At a table position whose byte \<open>b0\<close> has its top two bits set
  and is not \<^verbatim>\<open>0xFF\<close>, one iteration of the scan moves the table pointer by exactly 2
  bytes and the code point counter by \<^verbatim>\<open>(((b0 & 0x3F) << 8) | b1) + 1\<close>: the statement
  \<^verbatim>\<open>i += j\<close> adds the encoded number and the increment \<^verbatim>\<open>i++\<close> of the loop adds one
  more. The scan from this position is the scan from the position two bytes on with
  that counter.
\<close>

theorem scan_skip_two_bytes:
  assumes "f ptr AND 0xC0 = 0xC0" "f ptr \<noteq> 0xFF" "i < 0x110000"
  shows "scan_iter f unicode ptr i
           = Next (ptr + 2) (i + (push_bit 8 (uint (f ptr AND 0x3F)) OR uint (f (ptr + 1))) + 1)
         \<and> scan f unicode ptr i
           = scan f unicode (ptr + 2) (i + (push_bit 8 (uint (f ptr AND 0x3F)) OR uint (f (ptr + 1))) + 1)"
  using assms by (simp add: scan_iter_def scan.simps [of f unicode ptr i])

text \<open>A marker \<^verbatim>\<open>C1 05\<close> encodes 261 and skips 262 code points.\<close>

theorem scan_skip_two_bytes_witness:
  "scan_iter (bytes [0xC1, 0x05]) 0x41 0 0 = Next 2 262
   \<and> scan (bytes [0xC1, 0x05]) 0x41 0 0 = scan (bytes [0xC1, 0x05]) 0x41 2 262"
  using scan_skip_two_bytes [where f = "bytes [0xC1, 0x05]" and ptr = 0 and i = 0
      and unicode = "0x41"]
  by (simp add: bytes_def)

text \<open>The counter does not advance by exactly the encoded number: after \<^verbatim>\<open>C1 05\<close>,
  which encodes 261, at counter 0 it is 262, not 261. So the record that follows the
  marker is found for code point 262 and not for code point 261.\<close>

theorem scan_skip_two_bytes_counterexample:
  "table_skip 0 AND 0xC0 = 0xC0 \<and> table_skip 0 \<noteq> 0xFF
   \<and> (push_bit 8 (uint (table_skip 0 AND 0x3F)) OR uint (table_skip 1)) = 261
   \<and> scan_iter table_skip 0x41 0 0 \<noteq> Next (0 + 2) (0 + 261)
   \<and> scan_iter table_skip 0x41 0 0 = Next 2 262
   \<and> scan table_skip 261 0 0 = None
   \<and> scan table_skip 262 0 0 = Some 2"
  by (simp add: table_skip_def end_of_table_def bytes_def scan_iter_def scan.simps)

subsection \<open>C6: the rows and the width of a fragment\<close>

text \<open>
  C6, as the code has it. For a bitmap fragment the decoder goes through \<^verbatim>\<open>frg[1] + 1\<close>
  rows, one more than its row count byte, or through those of them that lie above the
  destination height when that cuts them short; the row counter \<open>y\<close> advances by that
  number. Each row is \<^verbatim>\<open>((frg[0] & 0x1F) + 1) * 8\<close> pixels wide: with an opaque
  background and the whole width inside the horizontal bounds, the stores visit the
  columns \<open>0\<close> to \<open>k - 1\<close> of each of these rows, once each, row by row.
\<close>

theorem fragment_rows_and_width:
  "fst (snd (draw_fragment fmt f dst w frg y po))
     = y + int (frag_rows dst (unat (f (frg + 1)) + 1) y)
   \<and> (dst_h dst = 0 \<or> dst_y dst + y + uint (f (frg + 1)) < dst_h dst \<longrightarrow>
        frag_rows dst (unat (f (frg + 1)) + 1) y = unat (f (frg + 1)) + 1)
   \<and> (dst_bg dst \<noteq> 0 \<and> 0 \<le> dst_x dst
        \<and> (w = 0 \<or> dst_x dst + 8 * (uint (f frg AND 0x1F) + 1) \<le> w) \<longrightarrow>
        map (\<lambda>s. (st_row s, st_col s)) (fst (draw_fragment fmt f dst w frg y po))
        = concat (map (\<lambda>r. map (\<lambda>l. (y + int r, int l)) [0..<8 * (unat (f frg AND 0x1F) + 1)])
                    [0..<frag_rows dst (unat (f (frg + 1)) + 1) y]))"
proof (intro conjI impI)
  have eq: "draw_fragment fmt f dst w frg y po
        = (frag_stores fmt f dst w (8 * (unat (f frg AND 0x1F) + 1)) (unat (f (frg + 1)) + 1)
             y po (frg + 2),
           y + int (frag_rows dst (unat (f (frg + 1)) + 1) y),
           po + int (frag_rows dst (unat (f (frg + 1)) + 1) y) * row_step fmt dst)"
    by (simp only: draw_fragment_def frag_width blit_closed)
  show "fst (snd (draw_fragment fmt f dst w frg y po))
          = y + int (frag_rows dst (unat (f (frg + 1)) + 1) y)"
    by (simp only: eq fst_conv snd_conv)
  show "frag_rows dst (unat (f (frg + 1)) + 1) y = unat (f (frg + 1)) + 1"
    if "dst_h dst = 0 \<or> dst_y dst + y + uint (f (frg + 1)) < dst_h dst"
  proof -
    have "uint (f (frg + 1)) = int (unat (f (frg + 1)))" by simp
    with that show ?thesis
      unfolding frag_rows_def by (auto simp del: of_nat_unat)
  qed
  show "map (\<lambda>s. (st_row s, st_col s)) (fst (draw_fragment fmt f dst w frg y po))
        = concat (map (\<lambda>r. map (\<lambda>l. (y + int r, int l)) [0..<8 * (unat (f frg AND 0x1F) + 1)])
                    [0..<frag_rows dst (unat (f (frg + 1)) + 1) y])"
    if "dst_bg dst \<noteq> 0 \<and> 0 \<le> dst_x dst
        \<and> (w = 0 \<or> dst_x dst + 8 * (uint (f frg AND 0x1F) + 1) \<le> w)"
  proof -
    have "int (8 * (unat (f frg AND 0x1F) + 1)) = 8 * (uint (f frg AND 0x1F) + 1)"
      by simp
    with that show ?thesis
      unfolding eq fst_conv by (intro frag_stores_opaque) (auto simp: algebra_simps)
  qed
qed

text \<open>The fragment of the letter A, row count byte 1 and descriptor \<^verbatim>\<open>80\<close>, on an
  opaque background: 2 rows of 8 pixels.\<close>

theorem fragment_rows_and_width_witness:
  "fst (snd (draw_fragment TRUECOLOR font_A ((screen 16 16)\<lparr>dst_bg := 1\<rparr>) 16 62 0 0)) = 2
   \<and> font_A 63 = 1
   \<and> map (\<lambda>s. (st_row s, st_col s))
        (fst (draw_fragment TRUECOLOR font_A ((screen 16 16)\<lparr>dst_bg := 1\<rparr>) 16 62 0 0))
      = [(0, 0), (0, 1), (0, 2), (0, 3), (0, 4), (0, 5), (0, 6), (0, 7),
         (1, 0), (1, 1), (1, 2), (1, 3), (1, 4), (1, 5), (1, 6), (1, 7)]"
proof -
  have b: "font_A 62 = 0x80" "font_A 63 = 1"
    by (simp_all add: font_A_def glyph_A_def font_defs)
  have r: "frag_rows ((screen 16 16)\<lparr>dst_bg := 1\<rparr>) 2 0 = 2"
    by (simp add: frag_rows_def screen_def)
  have u: "[0..<8] = [0, 1, 2, 3, 4, 5, 6, 7]" "[0..<2] = [0, 1]"
    by (simp_all add: upt_conv_Cons)
  from fragment_rows_and_width [where fmt = TRUECOLOR and f = font_A
      and dst = "(screen 16 16)\<lparr>dst_bg := 1\<rparr>" and w = 16 and frg = 62 and y = 0 and po = 0]
  show ?thesis
    by (simp add: b r u screen_def)
qed

text \<open>The row count byte of that fragment is 1 and two rows are drawn, rows 0 and 1.\<close>

theorem fragment_rows_and_width_counterexample:
  "font_A 62 AND 0xE0 = 0x80 \<and> font_A 63 = 1
   \<and> map st_row (fst (draw_fragment TRUECOLOR font_A (screen 16 16) 16 62 0 0)) = [0, 1]
   \<and> fst (snd (draw_fragment TRUECOLOR font_A (screen 16 16) 16 62 0 0)) = 2"
  by code_simp

subsection \<open>C7: invalid input\<close>

text \<open>
  C7. When the font pointer is null, or one of the four magic bytes differs from
  \<^verbatim>\<open>'S'\<close>, \<^verbatim>\<open>'F'\<close>, \<^verbatim>\<open>'N'\<close>, \<^verbatim>\<open>'2'\<close>, or the destination pointer is null, or the
  pitch is zero, \<^verbatim>\<open>ssfn_putc\<close> returns \<^verbatim>\<open>SSFN_ERR_INVINP\<close> and the destination (buffer
  and cursor) is as it was. The result does not depend on the character table, which is
  not scanned.
\<close>

theorem putc_invalid_input:
  assumes "ssfn_src = None
           \<or> (\<exists>f. ssfn_src = Some f \<and> (f 0 \<noteq> 0x53 \<or> f 1 \<noteq> 0x46 \<or> f 2 \<noteq> 0x4E \<or> f 3 \<noteq> 0x32))
           \<or> dst_ptr ssfn_dst = None \<or> dst_p ssfn_dst = 0"
  shows "ssfn_putc cfg ssfn_src ssfn_dst unicode = Inr (SSFN_ERR_INVINP, ssfn_dst)"
proof (cases ssfn_src)
  case None
  then show ?thesis by (simp add: ssfn_putc_def)
next
  case (Some f)
  with assms have "\<not> magic_ok f \<or> dst_ptr ssfn_dst = None \<or> dst_p ssfn_dst = 0"
    by (auto simp: magic_ok_def)
  with Some show ?thesis by (auto simp: ssfn_putc_def)
qed

text \<open>A font whose magic is \<^verbatim>\<open>SFNC\<close>, a null font, a zero pitch and a null
  destination pointer.\<close>

theorem putc_invalid_input_witness:
  "ssfn_putc with_control (Some (bytes [0x53, 0x46, 0x4E, 0x43])) (screen 16 16) 0x41
     = Inr (SSFN_ERR_INVINP, screen 16 16)
   \<and> ssfn_putc with_control None (screen 16 16) 0x41 = Inr (SSFN_ERR_INVINP, screen 16 16)
   \<and> ssfn_putc with_control (Some font_empty) ((screen 16 16)\<lparr>dst_p := 0\<rparr>) 0x41
     = Inr (SSFN_ERR_INVINP, (screen 16 16)\<lparr>dst_p := 0\<rparr>)
   \<and> ssfn_putc with_control (Some font_empty) ((screen 16 16)\<lparr>dst_ptr := None\<rparr>) 0x41
     = Inr (SSFN_ERR_INVINP, (screen 16 16)\<lparr>dst_ptr := None\<rparr>)"
  using putc_invalid_input [where ssfn_src = "Some (bytes [0x53, 0x46, 0x4E, 0x43])"
      and ssfn_dst = "screen 16 16" and cfg = with_control and unicode = "0x41"]
    putc_invalid_input [where ssfn_src = None and ssfn_dst = "screen 16 16"
      and cfg = with_control and unicode = "0x41"]
    putc_invalid_input [where ssfn_src = "Some font_empty"
      and ssfn_dst = "(screen 16 16)\<lparr>dst_p := 0\<rparr>" and cfg = with_control and unicode = "0x41"]
    putc_invalid_input [where ssfn_src = "Some font_empty"
      and ssfn_dst = "(screen 16 16)\<lparr>dst_ptr := None\<rparr>" and cfg = with_control
      and unicode = "0x41"]
  by (simp add: bytes_def)

subsection \<open>C8: carriage return and newline\<close>

text \<open>
  C8, as the code has it. With the control block compiled in, valid inputs and a nonzero
  font height, a call with carriage return or newline returns \<^verbatim>\<open>SSFN_OK\<close> with the
  cursor \<open>x\<close> at 0, whatever the character table holds, and draws no glyph: the buffer
  changes by the scroll of lines 289-293 only. The table is scanned all the same before
  the control block, and its result is used: when it holds a record for the code point
  and the width is nonzero, the wrap test of line 286 on that record's advance can move
  \<open>y\<close> down one more cell height.
\<close>

theorem putc_line_terminator:
  assumes "magic_ok f" "dst_ptr dst \<noteq> None" "dst_p dst \<noteq> 0" "cfg_control cfg"
    and "font_height f \<noteq> 0" and "unicode = 13 \<or> unicode = 10"
  shows "ssfn_putc cfg (Some f) dst unicode
         = Inr (SSFN_OK,
                (scroll (font_height f)
                   (dst_h dst - font_height f - dst_h dst smod font_height f)
                   (dst\<lparr>dst_y := dst_y dst
                      + (case scan f unicode (characters_offs f) 0 of
                           None \<Rightarrow> 0
                         | Some c \<Rightarrow>
                             if dst_w dst \<noteq> 0 \<and> dst_x dst + uint (f (c + 4)) > \<bar>dst_w dst\<bar>
                             then font_height f else 0)
                      + (if unicode = 10 then font_height f else 0)\<rparr>))
                \<lparr>dst_x := 0\<rparr>)"
proof -
  from assms(2) obtain mem where mem: "dst_ptr dst = Some mem"
    by auto
  have nine: "unicode \<noteq> 9"
    using assms(6) by auto
  show ?thesis
  proof (cases "scan f unicode (characters_offs f) 0")
    case None
    with assms mem show ?thesis
      by (auto simp: ssfn_putc_def control_def advance_cursor_def scroll_def Let_def)
  next
    case (Some c)
    with assms mem nine show ?thesis
      by (auto simp: ssfn_putc_def control_def advance_cursor_def scroll_def Let_def abs_if)
  qed
qed

text \<open>A newline with a font that has a record for code point 10, and with one that has
  none.\<close>

theorem putc_line_terminator_witness:
  "ssfn_putc with_control (Some font_nl) (screen 4 0) 10
     = Inr (SSFN_OK, (screen 4 0)\<lparr>dst_y := 32\<rparr>)
   \<and> ssfn_putc with_control (Some font_empty) (screen 4 0) 10
     = Inr (SSFN_OK, (screen 4 0)\<lparr>dst_y := 16\<rparr>)"
  using putc_line_terminator [where f = font_nl and dst = "screen 4 0" and cfg = with_control
      and unicode = 10]
    putc_line_terminator [where f = font_empty and dst = "screen 4 0" and cfg = with_control
      and unicode = 10]
  by (simp add: font_nl_facts font_empty_facts with_control_def screen_def scroll_def)

text \<open>The glyph lookup is performed and observable: two fonts that differ only in their
  tables give different cursors for a newline.\<close>

theorem putc_line_terminator_counterexample:
  "ssfn_putc with_control (Some font_nl) (screen 4 0) 10
     = Inr (SSFN_OK, (screen 4 0)\<lparr>dst_y := 32\<rparr>)
   \<and> ssfn_putc with_control (Some font_empty) (screen 4 0) 10
     = Inr (SSFN_OK, (screen 4 0)\<lparr>dst_y := 16\<rparr>)
   \<and> ssfn_putc with_control (Some font_nl) (screen 4 0) 10
     \<noteq> ssfn_putc with_control (Some font_empty) (screen 4 0) 10"
  by (simp add: putc_defs font_nl_facts font_empty_facts with_control_def screen_def)

subsection \<open>C9: a transparent background\<close>

text \<open>
  C9, as the code has it. Let the inputs be valid, the background colour 0, and the
  table hold a record for the code point. If the control block, when compiled in, leaves
  the buffer as it was (it did not scroll), then after the call every byte of the buffer
  that lies in no foreground pixel of the glyph (a set bit of one of its bitmap
  fragments, inside the bounds of the destination, at the cursor as the control block
  left it) has its prior value.
\<close>

theorem putc_transparent_frame:
  assumes "magic_ok f" "dst_p dst \<noteq> 0" "dst_ptr dst = Some mem" "dst_bg dst = 0"
    and "scan f unicode (characters_offs f) 0 = Some c"
    and "(if cfg_control cfg then control f unicode (Some c) \<bar>dst_w dst\<bar> dst else Inr dst) = Inr d"
    and "dst_ptr d = Some mem"
  shows "\<exists>r d' mem'. ssfn_putc cfg (Some f) dst unicode = Inr (r, d') \<and> dst_ptr d' = Some mem'
           \<and> (\<forall>a. (\<forall>s \<in> set (glyph_fg (cfg_pixel cfg) f d \<bar>dst_w dst\<bar> c).
                      \<not> (st_addr s \<le> a \<and> a < st_addr s + sizeof_pixel (cfg_pixel cfg)))
                  \<longrightarrow> mem' a = mem a)"
proof -
  let ?w = "\<bar>dst_w dst\<bar>"
  let ?fmt = "cfg_pixel cfg"
  have w: "(if dst_w dst < 0 then - dst_w dst else dst_w dst) = ?w"
    by simp
  have bg: "dst_bg d = 0"
    using assms(4,6) control_keeps [of f unicode "Some c" ?w dst d]
    by (auto split: if_splits)
  show ?thesis
  proof (cases "cfg_control cfg \<and> (unicode = 13 \<or> unicode = 10)")
    case True
    with assms have "ssfn_putc cfg (Some f) dst unicode = Inr (SSFN_OK, d\<lparr>dst_x := 0\<rparr>)"
      by (simp add: ssfn_putc_def w del: abs_if)
    with assms(7) show ?thesis
      by simp
  next
    case False
    let ?mem' = "foldl (poke ?fmt) mem (render ?fmt f d ?w c)"
    from False assms
    have "ssfn_putc cfg (Some f) dst unicode = Inr (draw ?fmt f (Some c) ?w d)"
      by (auto simp: ssfn_putc_def w simp del: abs_if split: if_splits)
    then have "ssfn_putc cfg (Some f) dst unicode
               = Inr (SSFN_OK, d\<lparr>dst_ptr := Some ?mem',
                                  dst_x := dst_x d + uint (f (c + 4)),
                                  dst_y := dst_y d + uint (f (c + 5))\<rparr>)"
      using assms(7) by (simp add: draw_def)
    moreover have "?mem' a = mem a"
      if "\<forall>s \<in> set (glyph_fg ?fmt f d ?w c).
            \<not> (st_addr s \<le> a \<and> a < st_addr s + sizeof_pixel ?fmt)" for a
      using that by (simp only: render_transparent [OF bg]) (rule pokes_other)
    ultimately show ?thesis
      by simp
  qed
qed

text \<open>The letter A at the origin: its two foreground pixels are at bytes 28-31 and
  64-67; byte 100 keeps its value.\<close>

theorem putc_transparent_frame_witness:
  "glyph_fg TRUECOLOR font_A (screen 16 16) 16 34
     = [\<lparr>st_addr = 28, st_row = 0, st_col = 7, st_val = 0xFFFFFFFF\<rparr>,
        \<lparr>st_addr = 64, st_row = 1, st_col = 0, st_val = 0xFFFFFFFF\<rparr>]
   \<and> the (dst_ptr (snd (projr (ssfn_putc with_control (Some font_A) (screen 16 16) 0x41)))) 100
     = ramp 100"
proof -
  have g: "glyph_fg TRUECOLOR font_A (screen 16 16) 16 34
     = [\<lparr>st_addr = 28, st_row = 0, st_col = 7, st_val = 0xFFFFFFFF\<rparr>,
        \<lparr>st_addr = 64, st_row = 1, st_col = 0, st_val = 0xFFFFFFFF\<rparr>]"
    by code_simp
  have b: "font_A 38 = 8"
    by (simp add: font_A_def glyph_A_def font_defs)
  have c: "control font_A 0x41 (Some 34) 16 (screen 16 16) = Inr (screen 16 16)"
    by (simp add: putc_defs font_A_facts b screen_def)
  have w: "cfg_pixel with_control = TRUECOLOR" "\<bar>dst_w (screen 16 16)\<bar> = 16"
    by (simp_all add: with_control_def screen_def)
  have "magic_ok font_A" "dst_p (screen 16 16) \<noteq> 0" "dst_ptr (screen 16 16) = Some ramp"
    "dst_bg (screen 16 16) = 0" "scan font_A 0x41 (characters_offs font_A) 0 = Some 34"
    "(if cfg_control with_control
      then control font_A 0x41 (Some 34) \<bar>dst_w (screen 16 16)\<bar> (screen 16 16)
      else Inr (screen 16 16)) = Inr (screen 16 16)"
    by (simp_all add: font_A_facts c w) (simp_all add: screen_def)
  from putc_transparent_frame [OF this \<open>dst_ptr (screen 16 16) = Some ramp\<close>]
  obtain r d' mem' where
    res: "ssfn_putc with_control (Some font_A) (screen 16 16) 0x41 = Inr (r, d')"
      "dst_ptr d' = Some mem'"
    and frame: "\<forall>a. (\<forall>s \<in> set (glyph_fg TRUECOLOR font_A (screen 16 16) 16 34).
            \<not> (st_addr s \<le> a \<and> a < st_addr s + sizeof_pixel TRUECOLOR)) \<longrightarrow> mem' a = ramp a"
    unfolding w by blast
  have "\<forall>s \<in> set (glyph_fg TRUECOLOR font_A (screen 16 16) 16 34).
          \<not> (st_addr s \<le> 100 \<and> 100 < st_addr s + sizeof_pixel TRUECOLOR)"
    by (simp add: g)
  with frame have "mem' 100 = ramp 100"
    by blast
  with res show ?thesis
    by (simp add: g)
qed

text \<open>A call that scrolls: with the cursor below the last row, the control block copies
  row 1 over row 0 before the glyph is drawn on row 1 (its one pixel inside the bounds is
  at bytes 32-35). Byte 0 lies in no pixel of the glyph and changes from 0 to 4.\<close>

theorem putc_transparent_frame_counterexample:
  "dst_bg tiny = 0
   \<and> scan font_A1 0x41 (characters_offs font_A1) 0 = Some 34
   \<and> control font_A1 0x41 (Some 34) 16 tiny
      = Inr (tiny\<lparr>dst_y := 1, dst_ptr := Some (scroll_rows 4 1 1 ramp)\<rparr>)
   \<and> render TRUECOLOR font_A1 (tiny\<lparr>dst_y := 1\<rparr>) 16 34
      = [\<lparr>st_addr = 32, st_row = 0, st_col = 7, st_val = 0xFFFFFFFF\<rparr>]
   \<and> ramp 0 = 0
   \<and> the (dst_ptr (snd (projr (ssfn_putc with_control (Some font_A1) tiny 0x41)))) 0 = 4"
proof -
  have "control font_A1 0x41 (Some 34) 16 tiny
        = Inr (tiny\<lparr>dst_y := 1, dst_ptr := Some (scroll_rows 4 1 1 ramp)\<rparr>)"
    by (simp add: putc_defs font_A1_facts tiny_def signed_modulo_int_def)
  moreover have "render TRUECOLOR font_A1 (tiny\<lparr>dst_y := 1\<rparr>) 16 34
      = [\<lparr>st_addr = 32, st_row = 0, st_col = 7, st_val = 0xFFFFFFFF\<rparr>]"
    by code_simp
  moreover have "ramp 0 = 0"
    by (simp add: ramp_def)
  moreover have "the (dst_ptr (snd (projr (ssfn_putc with_control (Some font_A1) tiny 0x41)))) 0 = 4"
    by code_simp
  ultimately show ?thesis
    by (simp add: font_A1_facts tiny_def)
qed

subsection \<open>C10: the two remainders of the control block\<close>

text \<open>
  C10. On valid inputs, a call divides by zero exactly when the control block is compiled
  in and either the font's cell height is zero (the remainder of line 283 is computed on
  every such call), or the code point is a tab, the width is nonzero, the table has a
  record for it and that record's horizontal advance is zero (the remainder of line
  285). So with a nonzero cell height and a nonzero advance of the tab glyph neither
  remainder divides by zero.
\<close>

theorem control_division_by_zero:
  assumes "magic_ok f" "dst_ptr dst \<noteq> None" "dst_p dst \<noteq> 0"
  shows "ssfn_putc cfg (Some f) dst unicode = Inl DivByZero \<longleftrightarrow>
           cfg_control cfg \<and>
           (font_height f = 0
            \<or> (unicode = 9 \<and> dst_w dst \<noteq> 0
                \<and> (\<exists>c. scan f unicode (characters_offs f) 0 = Some c \<and> f (c + 4) = 0)))"
proof -
  from assms(2) obtain mem where mem: "dst_ptr dst = Some mem"
    by auto
  show ?thesis
  proof (cases "scan f unicode (characters_offs f) 0")
    case None
    with assms mem show ?thesis
      by (auto simp: ssfn_putc_def control_def advance_cursor_def Let_def)
  next
    case (Some c)
    with assms mem show ?thesis
      by (auto simp: ssfn_putc_def control_def advance_cursor_def Let_def)
  qed
qed

text \<open>A font of height 0; a tab glyph of advance 0, with and without a width; and a font
  with no tab glyph.\<close>

theorem control_division_by_zero_witness:
  "ssfn_putc with_control (Some font_flat) (screen 16 32) 0x41 = Inl DivByZero
   \<and> ssfn_putc with_control (Some font_tab) (screen 16 32) 9 = Inl DivByZero
   \<and> ssfn_putc with_control (Some font_tab) (screen 0 32) 9 \<noteq> Inl DivByZero
   \<and> ssfn_putc with_control (Some font_empty) (screen 16 32) 9 \<noteq> Inl DivByZero"
  using control_division_by_zero [where f = font_flat and dst = "screen 16 32"
      and cfg = with_control and unicode = "0x41"]
    control_division_by_zero [where f = font_tab and dst = "screen 16 32"
      and cfg = with_control and unicode = 9]
    control_division_by_zero [where f = font_tab and dst = "screen 0 32"
      and cfg = with_control and unicode = 9]
    control_division_by_zero [where f = font_empty and dst = "screen 16 32"
      and cfg = with_control and unicode = 9]
  by (simp add: font_flat_facts font_tab_facts font_empty_facts with_control_def screen_def)

end
